theory Spec2Isabelle
  imports Complex_Main
begin

unbundle bit_operations_syntax

section \<open>Data model\<close>

text \<open>
  The generator of \<^verbatim>\<open>src/src/dungeon.ts\<close> works on JavaScript numbers. Coordinates,
  sizes, gutters, ratios and chances are modelled as real numbers (no rounding, no
  NaN; the one place where the source divides, the ratio test of \<^verbatim>\<open>splitContainer\<close>,
  has its division by zero written out). Tile ids, the iteration count and the monster
  limit are integers.

  The arithmetic of the model is exact. That of the code is the arithmetic of doubles:
  it is exact on whole numbers and on their halves (far below \<open>2 ^ 53\<close>), which is what
  whole-number parameters and whole-number draws give, and it rounds elsewhere, so that
  there a number that the code computes can differ from the model's in its last bit
  (an example is given with \<open>roomRect\<close>).

  \<^verbatim>\<open>types.ts\<close>, \<^verbatim>\<open>patterns.ts\<close> and \<^verbatim>\<open>utils.ts\<close> are imported by the source but are
  not part of it. Their classes are modelled below from the way \<^verbatim>\<open>dungeon.ts\<close> uses
  them and from the specification; their functions, constants and pattern tables are
  parameters of the model (the records \<open>Utils\<close>, \<open>Patterns\<close> and \<open>Types\<close>).
\<close>

text \<open>Modelled from the spec: the position \<^verbatim>\<open>x\<close>, \<^verbatim>\<open>y\<close> shared by rectangles and monsters.\<close>

record Point =
  x :: real
  y :: real

text \<open>
  Modelled from the spec: the geometry primitive behind \<^verbatim>\<open>Container\<close>, \<^verbatim>\<open>Room\<close> and
  \<^verbatim>\<open>Corridor\<close> (position and size, with the derived centre and edges).
\<close>

record Rectangle = Point +
  width :: real
  height :: real

text \<open>
  Modelled from the spec: a hole or trap pattern of \<^verbatim>\<open>patterns.ts\<close>, a fixed width and
  height and a 2D array of ids (\<^verbatim>\<open>hole.width\<close>, \<^verbatim>\<open>hole.height\<close>, \<^verbatim>\<open>holes.tiles\<close>).
\<close>

record Pattern =
  patternWidth :: real
  patternHeight :: real
  tiles :: "int list list"

text \<open>
  Modelled from the spec: the classes \<^verbatim>\<open>Room\<close>, \<^verbatim>\<open>Corridor\<close> and \<^verbatim>\<open>Container\<close> of
  \<^verbatim>\<open>types.ts\<close>, rectangles with the optional fields that \<^verbatim>\<open>dungeon.ts\<close> reads and
  assigns (\<^verbatim>\<open>room.holes\<close>, \<^verbatim>\<open>corridor.traps\<close>, \<^verbatim>\<open>container.room\<close>,
  \<^verbatim>\<open>container.corridor\<close>), undefined until assigned.
\<close>

record Room = Rectangle +
  holes :: "Pattern option"

record Corridor = Rectangle +
  traps :: "Pattern option"

record Container = Rectangle +
  room :: "Room option"
  corridor :: "Corridor option"

text \<open>
  Modelled from the spec: \<^verbatim>\<open>TreeNode<T>\<close> of \<^verbatim>\<open>types.ts\<close>. The constructor stores its
  argument in \<^verbatim>\<open>leaf\<close>; \<^verbatim>\<open>left\<close> and \<^verbatim>\<open>right\<close> stay undefined until assigned.
\<close>

datatype 'a TreeNode =
  TreeNode (leaf: 'a) (left: "'a TreeNode option") (right: "'a TreeNode option")

text \<open>
  Modelled from the spec: the string types \<^verbatim>\<open>Direction\<close> and \<^verbatim>\<open>MonsterType\<close> and the
  class \<^verbatim>\<open>Monster\<close> of \<^verbatim>\<open>types.ts\<close>, with the values that \<^verbatim>\<open>dungeon.ts\<close> uses.
\<close>

datatype Direction = Vertical | Horizontal

datatype MonsterType = Bandit | Skeleton | Troll | Mushroom

record Monster = Point +
  radius :: real
  monsterType :: "MonsterType option"

record DungeonArgs =
  mapWidth :: int
  mapHeight :: int
  mapGutterWidth :: real
  iterations :: int
  containerGutterWidth :: real
  containerWidthRatio :: real
  containerHeightRatio :: real
  roomGutterWidth :: real
  roomMaxMonsters :: int
  roomMinSize :: real
  roomHoleChance :: real
  corridorWidth :: real
  corridorTrapChance :: real

text \<open>
  The helpers of \<^verbatim>\<open>utils.ts\<close> and the imported Poisson-disc sampler, over a random
  source of type \<open>'g\<close> that every call takes and returns:
  \<^item> \<open>random_num lo hi\<close> is \<^verbatim>\<open>random(lo, hi)\<close>;
  \<^item> \<open>randomIndex ws\<close> is the position that \<^verbatim>\<open>randomWeights(ws, values)\<close> draws, the
    call returning \<^verbatim>\<open>values[i]\<close>;
  \<^item> \<open>shuffleArray\<close> is \<^verbatim>\<open>shuffleArray\<close>;
  \<^item> \<open>poissonFill w h\<close> is \<^verbatim>\<open>new PoissonDiscSampling({shape: [w, h], ...}).fill()\<close>,
    a point being the pair of its two coordinates.
\<close>

record 'g Utils =
  random_num :: "real \<Rightarrow> real \<Rightarrow> 'g \<Rightarrow> real \<times> 'g"
  randomIndex :: "real list \<Rightarrow> 'g \<Rightarrow> nat \<times> 'g"
  shuffleArray :: "(real \<times> real) list \<Rightarrow> 'g \<Rightarrow> (real \<times> real) list \<times> 'g"
  poissonFill :: "real \<Rightarrow> real \<Rightarrow> 'g \<Rightarrow> (real \<times> real) list \<times> 'g"

text \<open>The pattern tables of \<^verbatim>\<open>patterns.ts\<close>: \<^verbatim>\<open>Holes.all\<close>, \<^verbatim>\<open>Traps.smallLarge\<close>, \<^verbatim>\<open>Traps.smallLong\<close>.\<close>

record Patterns =
  holesAll :: "Pattern list"
  trapsSmallLarge :: Pattern
  trapsSmallLong :: Pattern

text \<open>
  The constants of \<^verbatim>\<open>types.ts\<close>: the \<^verbatim>\<open>TileDirection\<close> flags, \<^verbatim>\<open>DirectionNWS\<close>,
  \<^verbatim>\<open>DirectionNES\<close>, and the getter \<^verbatim>\<open>Corridor.direction\<close>.
\<close>

record Types =
  West :: int
  East :: int
  North :: int
  South :: int
  NorthEast :: int
  NorthWest :: int
  DirectionNWS :: int
  DirectionNES :: int
  corridorDirection :: "Corridor \<Rightarrow> Direction"

datatype error = TypeError

type_synonym TileMap = "int list list"

definition newContainer :: "real \<Rightarrow> real \<Rightarrow> real \<Rightarrow> real \<Rightarrow> Container" where
  "newContainer px py w h =
     \<lparr>x = px, y = py, width = w, height = h, room = None, corridor = None\<rparr>"

definition newRoom :: "real \<Rightarrow> real \<Rightarrow> real \<Rightarrow> real \<Rightarrow> Room" where
  "newRoom px py w h = \<lparr>x = px, y = py, width = w, height = h, holes = None\<rparr>"

definition newCorridor :: "real \<Rightarrow> real \<Rightarrow> real \<Rightarrow> real \<Rightarrow> Corridor" where
  "newCorridor px py w h = \<lparr>x = px, y = py, width = w, height = h, traps = None\<rparr>"

definition newMonster :: "real \<Rightarrow> real \<Rightarrow> real \<Rightarrow> MonsterType option \<Rightarrow> Monster" where
  "newMonster px py r t = \<lparr>x = px, y = py, radius = r, monsterType = t\<rparr>"

text \<open>Modelled from the spec: the derived edges and centre of a rectangle.\<close>

definition rect_right :: "'a Rectangle_scheme \<Rightarrow> real" where
  "rect_right r = x r + width r"

definition rect_down :: "'a Rectangle_scheme \<Rightarrow> real" where
  "rect_down r = y r + height r"

definition center :: "'a Rectangle_scheme \<Rightarrow> real \<times> real" where
  "center r = (x r + width r / 2, y r + height r / 2)"

text \<open>
  Modelled from the spec: the getter \<^verbatim>\<open>leaves\<close> of a tree node, the data of the nodes
  that do not have both children, left subtree first.
\<close>

fun leaves :: "'a TreeNode \<Rightarrow> 'a list" where
  "leaves (TreeNode d (Some l) (Some r)) = leaves l @ leaves r"
| "leaves (TreeNode d lo ro) = [d]"

text \<open>
  \<^verbatim>\<open>randomWeights(weights, values)\<close>: the value at the drawn position, \<^verbatim>\<open>undefined\<close>
  (\<open>None\<close>) when the position is outside \<^verbatim>\<open>values\<close>.
\<close>

definition randomWeights :: "'g Utils \<Rightarrow> real list \<Rightarrow> 'a list \<Rightarrow> 'g \<Rightarrow> 'a option \<times> 'g" where
  "randomWeights U weights vals g =
     (let (i, g1) = randomIndex U weights g
      in (if i < length vals then Some (vals ! i) else None, g1))"

section \<open>Partition tree\<close>

text \<open>
  The comparison \<^verbatim>\<open>a / b < r\<close> of JavaScript for finite \<open>a\<close>, \<open>b\<close>, \<open>r\<close>: with
  \<open>b = 0\<close> the quotient is \<^verbatim>\<open>Infinity\<close> or \<^verbatim>\<open>NaN\<close> (comparison false) unless \<open>a\<close> is
  negative, when it is \<^verbatim>\<open>-Infinity\<close> (comparison true).
\<close>

definition js_div_lt :: "real \<Rightarrow> real \<Rightarrow> real \<Rightarrow> bool" where
  "js_div_lt a b r = (if b \<noteq> 0 then a / b < r else a < 0)"

text \<open>
  \<^verbatim>\<open>splitContainer\<close> retries by calling itself, with no bound on the number of retries:
  the model is a partial function, \<open>None\<close> standing for a call that never returns.
\<close>

partial_function (option) splitContainer ::
  "'g Utils \<Rightarrow> DungeonArgs \<Rightarrow> Container \<Rightarrow> 'g \<Rightarrow> ((Container \<times> Container) \<times> 'g) option" where
  "splitContainer U args container g =
    (let (direction, g1) = randomWeights U [1 / 2, 1 / 2] [Vertical, Horizontal] g in
     if direction = Some Vertical then
       (let (w, g2) = random_num U 1 (width container) g1;
            l = newContainer (x container) (y container) w (height container);
            r = newContainer (x container + width l) (y container)
                  (width container - width l) (height container)
        in if js_div_lt (width l) (height l) (containerWidthRatio args) \<or>
              js_div_lt (width r) (height r) (containerWidthRatio args)
           then splitContainer U args container g2
           else Some ((l, r), g2))
     else
       (let (h, g2) = random_num U 1 (height container) g1;
            l = newContainer (x container) (y container) (width container) h;
            r = newContainer (x container) (y container + height l)
                  (width container) (height container - height l)
        in if js_div_lt (height l) (width l) (containerHeightRatio args) \<or>
              js_div_lt (height r) (width r) (containerHeightRatio args)
           then splitContainer U args container g2
           else Some ((l, r), g2)))"

text \<open>
  \<^verbatim>\<open>generateTree\<close> stops only when \<^verbatim>\<open>iterations\<close> reaches exactly 0, so it is partial
  as well (a negative count never returns).
\<close>

partial_function (option) generateTree ::
  "'g Utils \<Rightarrow> DungeonArgs \<Rightarrow> Container \<Rightarrow> int \<Rightarrow> 'g \<Rightarrow> (Container TreeNode \<times> 'g) option" where
  "generateTree U args container iters g =
    (if iters \<noteq> 0 then
       Option.bind (splitContainer U args container g) (\<lambda>((l, r), g1).
       Option.bind (generateTree U args l (iters - 1) g1) (\<lambda>(lt, g2).
       Option.bind (generateTree U args r (iters - 1) g2) (\<lambda>(rt, g3).
         Some (TreeNode container (Some lt) (Some rt), g3))))
     else Some (TreeNode container None None, g))"

declare splitContainer.simps [code]
declare generateTree.simps [code]

text \<open>The lengths of the root-to-leaf paths of a tree, and the nodes' data in pre-order.\<close>

fun pathLengths :: "'a TreeNode \<Rightarrow> nat list" where
  "pathLengths (TreeNode d (Some l) (Some r)) = map Suc (pathLengths l @ pathLengths r)"
| "pathLengths (TreeNode d lo ro) = [0]"

fun nodes :: "'a TreeNode \<Rightarrow> 'a list" where
  "nodes (TreeNode d lo ro) =
     d # (case lo of None \<Rightarrow> [] | Some l \<Rightarrow> nodes l) @ (case ro of None \<Rightarrow> [] | Some r \<Rightarrow> nodes r)"

text \<open>A node is full when it has both children or none, all the way down.\<close>

fun fullTree :: "'a TreeNode \<Rightarrow> bool" where
  "fullTree (TreeNode d None None) = True"
| "fullTree (TreeNode d (Some l) (Some r)) = (fullTree l \<and> fullTree r)"
| "fullTree (TreeNode d lo ro) = False"

text \<open>The two ways in which a pair of children can partition a container.\<close>

definition verticalSplit :: "Container \<Rightarrow> Container \<Rightarrow> Container \<Rightarrow> bool" where
  "verticalSplit c l r =
     (x l = x c \<and> y l = y c \<and> y r = y c \<and> height l = height c \<and> height r = height c \<and>
      width l + width r = width c \<and> x r = x l + width l)"

definition horizontalSplit :: "Container \<Rightarrow> Container \<Rightarrow> Container \<Rightarrow> bool" where
  "horizontalSplit c l r =
     (x l = x c \<and> y l = y c \<and> x r = x c \<and> width l = width c \<and> width r = width c \<and>
      height l + height r = height c \<and> y r = y l + height l)"

text \<open>
  The acceptance test of \<^verbatim>\<open>splitContainer\<close> on a returned pair: the ratio compared
  is width over height after a vertical split, height over width after a horizontal one.
\<close>

definition acceptedSplit :: "DungeonArgs \<Rightarrow> Container \<Rightarrow> Container \<Rightarrow> Container \<Rightarrow> bool" where
  "acceptedSplit args c l r =
     ((verticalSplit c l r \<and>
       \<not> js_div_lt (width l) (height l) (containerWidthRatio args) \<and>
       \<not> js_div_lt (width r) (height r) (containerWidthRatio args)) \<or>
      (horizontalSplit c l r \<and>
       \<not> js_div_lt (height l) (width l) (containerHeightRatio args) \<and>
       \<not> js_div_lt (height r) (width r) (containerHeightRatio args)))"

text \<open>The ratio of the longer side of a rectangle to its shorter side.\<close>

definition longToShort :: "'a Rectangle_scheme \<Rightarrow> real" where
  "longToShort r = max (width r) (height r) / min (width r) (height r)"

section \<open>Rooms\<close>

text \<open>
  The rectangle that the callback of \<^verbatim>\<open>generateRooms\<close> computes for a leaf container:
  four calls of \<^verbatim>\<open>random\<close>, in the order x, y, width, height. For a whole-number
  container, gutter and draws these are the numbers that the code computes. With a
  gutter such as 2.2 the code rounds every sum and difference to a double, the model
  does not: for the container \<open>(1, 1, 6, 6)\<close> and draws of 0 the width is
  \<open>6 - 2 - 2.2\<close>, which is 1.7999999999999998 in the code and \<open>9 / 5\<close> here.
\<close>

definition roomRect ::
  "'g Utils \<Rightarrow> DungeonArgs \<Rightarrow> Container \<Rightarrow> 'g \<Rightarrow> (real \<times> real \<times> real \<times> real) \<times> 'g" where
  "roomRect U args container g =
     (let (r1, g1) = random_num U 0 (of_int \<lfloor>width container / 4\<rfloor>) g;
          rx = of_int \<lfloor>x container + containerGutterWidth args + r1\<rfloor>;
          (r2, g2) = random_num U 0 (of_int \<lfloor>height container / 4\<rfloor>) g1;
          ry = of_int \<lfloor>y container + containerGutterWidth args + r2\<rfloor>;
          (r3, g3) = random_num U 0 (of_int \<lfloor>width container / 4\<rfloor>) g2;
          rw = width container - (rx - x container) - containerGutterWidth args - r3;
          (r4, g4) = random_num U 0 (of_int \<lfloor>height container / 4\<rfloor>) g3;
          rh = height container - (ry - y container) - containerGutterWidth args - r4
      in ((rx, ry, rw, rh), g4))"

text \<open>The test of the hole loop: the room is at least twice as wide and as high as the hole.\<close>

definition holeFits :: "Room \<Rightarrow> Pattern \<Rightarrow> bool" where
  "holeFits rm hole = (width rm \<ge> patternWidth hole * 2 \<and> height rm \<ge> patternHeight hole * 2)"

text \<open>\<^verbatim>\<open>Holes.all.forEach\<close>: every pattern is visited, one is attached only while none is.\<close>

fun attachHoles :: "Pattern list \<Rightarrow> Room \<Rightarrow> Room" where
  "attachHoles [] rm = rm"
| "attachHoles (hole # rest) rm =
     attachHoles rest (if holes rm = None \<and> holeFits rm hole then rm\<lparr>holes := Some hole\<rparr> else rm)"

text \<open>The part of the callback that runs once the size test has passed.\<close>

definition makeRoom ::
  "'g Utils \<Rightarrow> Patterns \<Rightarrow> DungeonArgs \<Rightarrow> real \<times> real \<times> real \<times> real \<Rightarrow> 'g \<Rightarrow> Room \<times> 'g" where
  "makeRoom U P args rect g =
     (let (rx, ry, rw, rh) = rect;
          rm = newRoom rx ry rw rh;
          (hasHole, g1) =
             randomWeights U [roomHoleChance args, 1 - roomHoleChance args] [True, False] g;
          rm = (if hasHole = Some True then attachHoles (holesAll P) rm else rm)
      in (rm, g1))"

definition placeRoom ::
  "'g Utils \<Rightarrow> Patterns \<Rightarrow> DungeonArgs \<Rightarrow> Container \<Rightarrow> 'g \<Rightarrow> Container \<times> 'g" where
  "placeRoom U P args container g =
     (let (rect, g4) = roomRect U args container g;
          (rx, ry, rw, rh) = rect
      in if rw < roomMinSize args \<or> rh < roomMinSize args then (container, g4)
         else (let (rm, g5) = makeRoom U P args rect g4
               in (container\<lparr>room := Some rm\<rparr>, g5)))"

text \<open>
  \<^verbatim>\<open>node.leaves.forEach(callback)\<close> with a callback that changes the leaf container it is
  given: the leaves are visited left to right, the random source is passed along.
\<close>

fun forEachLeaf ::
  "(Container \<Rightarrow> 'g \<Rightarrow> Container \<times> 'g) \<Rightarrow> Container TreeNode \<Rightarrow> 'g \<Rightarrow> Container TreeNode \<times> 'g" where
  "forEachLeaf f (TreeNode d (Some l) (Some r)) g =
     (let (l1, g1) = forEachLeaf f l g;
          (r1, g2) = forEachLeaf f r g1
      in (TreeNode d (Some l1) (Some r1), g2))"
| "forEachLeaf f (TreeNode d lo ro) g = (let (d1, g1) = f d g in (TreeNode d1 lo ro, g1))"

definition generateRooms ::
  "'g Utils \<Rightarrow> Patterns \<Rightarrow> DungeonArgs \<Rightarrow> Container TreeNode \<Rightarrow> 'g \<Rightarrow> Container TreeNode \<times> 'g" where
  "generateRooms U P args node g = forEachLeaf (placeRoom U P args) node g"

section \<open>Corridors\<close>

fun generateCorridors ::
  "'g Utils \<Rightarrow> Patterns \<Rightarrow> Types \<Rightarrow> DungeonArgs \<Rightarrow> Container TreeNode \<Rightarrow> 'g
     \<Rightarrow> Container TreeNode \<times> 'g" where
  "generateCorridors U P T args (TreeNode d (Some l) (Some r)) g =
     (let leftCenter = center (leaf l);
          rightCenter = center (leaf r);
          cx = of_int \<lceil>fst leftCenter\<rceil>;
          cy = of_int \<lceil>snd leftCenter\<rceil>;
          cor = (if fst leftCenter = fst rightCenter
                 then newCorridor cx cy (of_int \<lceil>corridorWidth args\<rceil>)
                        (of_int \<lceil>snd rightCenter\<rceil> - cy)
                 else newCorridor cx cy (of_int \<lceil>fst rightCenter\<rceil> - cx)
                        (of_int \<lceil>corridorWidth args\<rceil>));
          (hasTrap, g1) =
             randomWeights U [corridorTrapChance args, 1 - corridorTrapChance args]
               [True, False] g;
          cor = (if hasTrap = Some True
                 then cor\<lparr>traps := Some (if corridorDirection T cor = Horizontal
                                           then trapsSmallLarge P else trapsSmallLong P)\<rparr>
                 else cor);
          d1 = d\<lparr>corridor := Some cor\<rparr>;
          (l1, g2) = generateCorridors U P T args l g1;
          (r1, g3) = generateCorridors U P T args r g2
      in (TreeNode d1 (Some l1) (Some r1), g3))"
| "generateCorridors U P T args (TreeNode d lo ro) g = (TreeNode d lo ro, g)"

section \<open>Monsters\<close>

text \<open>
  \<^verbatim>\<open>array.slice(0, n)\<close> for an integer \<open>n\<close>: a negative \<open>n\<close> counts from the end of the
  array.
\<close>

definition js_slice0 :: "'a list \<Rightarrow> int \<Rightarrow> 'a list" where
  "js_slice0 xs n = (if n < 0 then take (nat (int (length xs) + n)) xs else take (nat n) xs)"

text \<open>\<^verbatim>\<open>slicedPoints.forEach\<close>: one monster is pushed for each point.\<close>

fun spawnMonsters ::
  "'g Utils \<Rightarrow> DungeonArgs \<Rightarrow> Room \<Rightarrow> (real \<times> real) list \<Rightarrow> Monster list \<Rightarrow> 'g
     \<Rightarrow> Monster list \<times> 'g" where
  "spawnMonsters U args rm [] monsters g = (monsters, g)"
| "spawnMonsters U args rm (point # points) monsters g =
     (let mx = x rm + roomGutterWidth args + fst point;
          my = y rm + roomGutterWidth args + snd point;
          (t, g1) = randomWeights U [1 / 2, 3 / 10, 15 / 100, 5 / 100]
                      [Bandit, Skeleton, Troll, Mushroom] g
      in spawnMonsters U args rm points (monsters @ [newMonster mx my 3 t]) g1)"

text \<open>The points that the callback of \<^verbatim>\<open>generateMonsters\<close> keeps for a room.\<close>

definition monsterPoints ::
  "'g Utils \<Rightarrow> DungeonArgs \<Rightarrow> Room \<Rightarrow> 'g \<Rightarrow> (real \<times> real) list \<times> 'g" where
  "monsterPoints U args rm g =
     (let (points, g1) = poissonFill U (width rm - roomGutterWidth args * 2)
                           (height rm - roomGutterWidth args * 2) g;
          (shuffledPoints, g2) = shuffleArray U points g1;
          slicedPoints = js_slice0 shuffledPoints (roomMaxMonsters args)
      in (slicedPoints, g2))"

definition monstersOfLeaf ::
  "'g Utils \<Rightarrow> DungeonArgs \<Rightarrow> Container \<Rightarrow> Monster list \<Rightarrow> 'g \<Rightarrow> Monster list \<times> 'g" where
  "monstersOfLeaf U args node monsters g =
     (case room node of
        None \<Rightarrow> (monsters, g)
      | Some rm \<Rightarrow>
          (let (slicedPoints, g2) = monsterPoints U args rm g
           in spawnMonsters U args rm slicedPoints monsters g2))"

fun monstersLoop ::
  "'g Utils \<Rightarrow> DungeonArgs \<Rightarrow> Container list \<Rightarrow> Monster list \<Rightarrow> 'g \<Rightarrow> Monster list \<times> 'g" where
  "monstersLoop U args [] monsters g = (monsters, g)"
| "monstersLoop U args (node # rest) monsters g =
     (let (monsters1, g1) = monstersOfLeaf U args node monsters g
      in monstersLoop U args rest monsters1 g1)"

definition generateMonsters ::
  "'g Utils \<Rightarrow> DungeonArgs \<Rightarrow> Container TreeNode \<Rightarrow> 'g \<Rightarrow> Monster list \<times> 'g" where
  "generateMonsters U args node g = monstersLoop U args (leaves node) [] g"

section \<open>The constructor\<close>

definition rootContainer :: "DungeonArgs \<Rightarrow> Container" where
  "rootContainer args =
     newContainer (mapGutterWidth args) (mapGutterWidth args)
       (of_int (mapWidth args) - mapGutterWidth args * 2)
       (of_int (mapHeight args) - mapGutterWidth args * 2)"

text \<open>
  The constructor of \<^verbatim>\<open>Dungeon\<close> up to the monsters: the tree with its rooms and
  corridors, and the monster list.
\<close>

definition dungeonTree ::
  "'g Utils \<Rightarrow> Patterns \<Rightarrow> Types \<Rightarrow> DungeonArgs \<Rightarrow> 'g
     \<Rightarrow> (Container TreeNode \<times> Monster list \<times> 'g) option" where
  "dungeonTree U P T args g =
     Option.bind (generateTree U args (rootContainer args) (iterations args) g) (\<lambda>(tree, g1).
       (let (tree1, g2) = generateRooms U P args tree g1;
            (tree2, g3) = generateCorridors U P T args tree1 g2;
            (monsters, g4) = generateMonsters U args tree2 g3
        in Some (tree2, monsters, g4)))"

section \<open>Tile maps\<close>

text \<open>
  Modelled from the spec: \<^verbatim>\<open>createTilemap(width, height, value)\<close> of \<^verbatim>\<open>utils.ts\<close>, a grid
  of \<open>height\<close> rows of \<open>width\<close> columns, every cell holding \<open>value\<close>.
\<close>

definition createTilemap :: "int \<Rightarrow> int \<Rightarrow> int \<Rightarrow> TileMap" where
  "createTilemap w h v = replicate (nat h) (replicate (nat w) v)"

text \<open>
  The read \<^verbatim>\<open>tilemap[row][col]\<close> where the source may leave the row: \<open>None\<close> is
  \<^verbatim>\<open>undefined\<close>. Every such read of the source is made with a row index inside the
  grid (the loops and the guards before the read see to it), so reading a missing row,
  which would throw, does not occur.
\<close>

definition cellAt :: "TileMap \<Rightarrow> int \<Rightarrow> int \<Rightarrow> int option" where
  "cellAt tm row col =
     (if 0 \<le> row \<and> row < int (length tm) \<and> 0 \<le> col \<and> col < int (length (tm ! nat row))
      then Some (tm ! nat row ! nat col) else None)"

text \<open>\<^verbatim>\<open>v > 0\<close> and \<^verbatim>\<open>v <= 0\<close>, both false for \<^verbatim>\<open>undefined\<close>.\<close>

fun gt0 :: "int option \<Rightarrow> bool" where
  "gt0 None = False"
| "gt0 (Some v) = (v > 0)"

fun le0 :: "int option \<Rightarrow> bool" where
  "le0 None = False"
| "le0 (Some v) = (v \<le> 0)"

text \<open>
  The nested loops shared by the passes over a grid,
  \<^verbatim>\<open>for (y = 0; y < tilemap.length; y++) for (x = 0; x < tilemap[y].length; x++)\<close>,
  with a body that may assign \<^verbatim>\<open>tilemap[y][x]\<close> only: \<open>f tm row col\<close> is the value of the
  cell after the body (its old value when the body assigns nothing). The grid is
  updated in place, so later cells see the values already written.
\<close>

function forCols :: "(TileMap \<Rightarrow> nat \<Rightarrow> nat \<Rightarrow> int) \<Rightarrow> TileMap \<Rightarrow> nat \<Rightarrow> nat \<Rightarrow> TileMap" where
  "forCols f tm row col =
     (if col < length (tm ! row)
      then forCols f (tm[row := (tm ! row)[col := f tm row col]]) row (Suc col)
      else tm)"
  by pat_completeness auto
termination
proof (relation "measure (\<lambda>(f, tm, row, col). length (tm ! row) - col)", goal_cases)
  case 1
  show ?case by simp
next
  case (2 f tm row col)
  have "length (tm[row := (tm ! row)[col := f tm row col]] ! row) = length (tm ! row)"
    by (cases "row < length tm") (simp_all add: list_update_beyond)
  with 2 show ?case by simp
qed

declare forCols.simps [simp del]

function forRows :: "(TileMap \<Rightarrow> nat \<Rightarrow> nat \<Rightarrow> int) \<Rightarrow> TileMap \<Rightarrow> nat \<Rightarrow> TileMap" where
  "forRows f tm row =
     (if row < length tm then forRows f (forCols f tm row 0) (Suc row) else tm)"
  by pat_completeness auto
termination
proof (relation "measure (\<lambda>(f, tm, row). length tm - row)", goal_cases)
  case 1
  show ?case by simp
next
  case (2 f tm row)
  have "length (forCols f tm row col) = length tm" for col
  proof (induction f tm row col rule: forCols.induct)
    case (1 f tm row col)
    then show ?case by (subst forCols.simps) simp
  qed
  with 2 show ?case by simp
qed

declare forRows.simps [simp del]

text \<open>The loops of \<^verbatim>\<open>carveRooms\<close> and \<^verbatim>\<open>carveCorridors\<close>: the cells of a rectangle are set to 0.\<close>

definition carveCell :: "'a Rectangle_scheme \<Rightarrow> TileMap \<Rightarrow> nat \<Rightarrow> nat \<Rightarrow> int" where
  "carveCell r tm row col =
     (let inHeightRange = (of_nat row \<ge> y r \<and> of_nat row < rect_down r);
          inWidthRange = (of_nat col \<ge> x r \<and> of_nat col < rect_right r)
      in if inHeightRange \<and> inWidthRange then 0 else tm ! row ! col)"

definition carveRect :: "'a Rectangle_scheme \<Rightarrow> TileMap \<Rightarrow> TileMap" where
  "carveRect r tm = forRows (carveCell r) tm 0"

fun carveRoomsLoop :: "Container list \<Rightarrow> TileMap \<Rightarrow> TileMap" where
  "carveRoomsLoop [] tilemap = tilemap"
| "carveRoomsLoop (container # rest) tilemap =
     carveRoomsLoop rest
       (case room container of None \<Rightarrow> tilemap | Some rm \<Rightarrow> carveRect rm tilemap)"

definition carveRooms :: "Container TreeNode \<Rightarrow> TileMap \<Rightarrow> TileMap" where
  "carveRooms node tilemap = carveRoomsLoop (leaves node) tilemap"

text \<open>
  \<^verbatim>\<open>carveCorridors(node, props, tilemap)\<close>, with the parameter names of the source. The
  result is the pair of the two grids in parameter order. The recursive calls read
  \<^verbatim>\<open>node.left.leaf\<close> and \<^verbatim>\<open>node.right.leaf\<close>, which throws when the child is missing.
\<close>

fun carveCorridors ::
  "Container TreeNode \<Rightarrow> TileMap \<Rightarrow> TileMap \<Rightarrow> error + (TileMap \<times> TileMap)" where
  "carveCorridors (TreeNode d lo ro) props tilemap =
     (case corridor d of
        None \<Rightarrow> Inr (props, tilemap)
      | Some cor \<Rightarrow>
          (let props1 = carveRect cor props in
           case lo of
             None \<Rightarrow> Inl TypeError
           | Some l \<Rightarrow>
               (case carveCorridors l props1 tilemap of
                  Inl e \<Rightarrow> Inl e
                | Inr (props2, tilemap2) \<Rightarrow>
                    (case ro of
                       None \<Rightarrow> Inl TypeError
                     | Some r \<Rightarrow> carveCorridors r props2 tilemap2))))"

text \<open>
  The statement \<^verbatim>\<open>this.carveCorridors(tree, tilemap, props)\<close> of \<^verbatim>\<open>generateTilemap\<close>:
  the tile map is passed for the parameter that \<^verbatim>\<open>carveCorridors\<close> calls \<^verbatim>\<open>props\<close>, the
  prop map for the one it calls \<^verbatim>\<open>tilemap\<close>. The result is (tile map, prop map).
\<close>

definition carveCorridorsStage ::
  "Container TreeNode \<Rightarrow> TileMap \<Rightarrow> TileMap \<Rightarrow> error + (TileMap \<times> TileMap)" where
  "carveCorridorsStage tree tilemap props = carveCorridors tree tilemap props"

text \<open>The first three statements of \<^verbatim>\<open>generateTilemap\<close> and the call above.\<close>

definition generateTilemap_carve ::
  "Container TreeNode \<Rightarrow> DungeonArgs \<Rightarrow> error + (TileMap \<times> TileMap)" where
  "generateTilemap_carve tree args =
     (let tilemap = createTilemap (mapWidth args) (mapHeight args) 1;
          props = createTilemap (mapWidth args) (mapHeight args) 0;
          tilemap = carveRooms tree tilemap
      in carveCorridorsStage tree tilemap props)"

datatype Side = SideNorth | SideWest | SideEast | SideSouth

text \<open>\<^verbatim>\<open>isColliding(x, y, side, tilemap)\<close>: \<open>col\<close> is \<^verbatim>\<open>x\<close>, \<open>row\<close> is \<^verbatim>\<open>y\<close>.\<close>

fun isColliding :: "nat \<Rightarrow> nat \<Rightarrow> Side \<Rightarrow> TileMap \<Rightarrow> bool" where
  "isColliding col row SideNorth tilemap =
     (row = 0 \<or> gt0 (cellAt tilemap (int row - 1) (int col)))"
| "isColliding col row SideEast tilemap =
     (int col = int (length (tilemap ! row)) - 1 \<or> gt0 (cellAt tilemap (int row) (int col + 1)))"
| "isColliding col row SideWest tilemap =
     (col = 0 \<or> gt0 (cellAt tilemap (int row) (int col - 1)))"
| "isColliding col row SideSouth tilemap =
     (int row = int (length tilemap) - 1 \<or> gt0 (cellAt tilemap (int row + 1) (int col)))"

definition getTileMask :: "Types \<Rightarrow> nat \<Rightarrow> nat \<Rightarrow> TileMap \<Rightarrow> int" where
  "getTileMask T col row tilemap =
     (let mask = 0;
          mask = (if isColliding col row SideWest tilemap then mask OR West T else mask);
          mask = (if isColliding col row SideEast tilemap then mask OR East T else mask);
          mask = (if isColliding col row SideNorth tilemap then mask OR North T else mask);
          mask = (if isColliding col row SideSouth tilemap then mask OR South T else mask)
      in mask)"

definition maskCell :: "Types \<Rightarrow> TileMap \<Rightarrow> nat \<Rightarrow> nat \<Rightarrow> int" where
  "maskCell T tilemap row col =
     (if tilemap ! row ! col > 0 then getTileMask T col row tilemap else tilemap ! row ! col)"

definition generateTileMask :: "Types \<Rightarrow> TileMap \<Rightarrow> TileMap" where
  "generateTileMask T tilemap = forRows (maskCell T) tilemap 0"

definition normalizeCell :: "Types \<Rightarrow> TileMap \<Rightarrow> nat \<Rightarrow> nat \<Rightarrow> int" where
  "normalizeCell T tilemap row col =
     (if row > 0 \<and> int row < int (length tilemap) - 1 \<and>
         int col < int (length (tilemap ! row)) - 1
      then
        (let leftTile = cellAt tilemap (int row) (int col - 1);
             rightTile = cellAt tilemap (int row) (int col + 1);
             topTile = cellAt tilemap (int row - 1) (int col);
             bottomTile = cellAt tilemap (int row + 1) (int col)
         in if gt0 rightTile \<and> gt0 bottomTile \<and>
               le0 (cellAt tilemap (int row + 1) (int col + 1))
            then DirectionNWS T
            else if gt0 leftTile \<and> gt0 bottomTile \<and>
                    le0 (cellAt tilemap (int row + 1) (int col - 1))
            then DirectionNES T
            else if gt0 topTile \<and> gt0 rightTile \<and>
                    le0 (cellAt tilemap (int row - 1) (int col + 1))
            then (tilemap ! row ! col) OR NorthEast T
            else if gt0 topTile \<and> gt0 leftTile \<and>
                    le0 (cellAt tilemap (int row - 1) (int col - 1))
            then (tilemap ! row ! col) OR NorthWest T
            else tilemap ! row ! col)
      else tilemap ! row ! col)"

definition normalizeTileMask :: "Types \<Rightarrow> TileMap \<Rightarrow> TileMap" where
  "normalizeTileMask T tilemap = forRows (normalizeCell T) tilemap 0"

section \<open>Notions used by the properties\<close>

text \<open>
  A stand-in for the absent helpers, used to run the model on concrete inputs. The random
  source is a counter; \<open>nextUniform\<close> plays \<^verbatim>\<open>Math.random()\<close>, a value in \<open>[0, 1)\<close>.
\<close>

definition nextUniform :: "nat \<Rightarrow> real \<times> nat" where
  "nextUniform g = (of_nat (g mod 16) / 16, (5 * g + 3) mod 16)"

text \<open>Modelled from the spec: \<^verbatim>\<open>random(lo, hi)\<close>, a whole number of steps from \<open>lo\<close>, below \<open>hi\<close>.\<close>

definition random_spec :: "real \<Rightarrow> real \<Rightarrow> nat \<Rightarrow> real \<times> nat" where
  "random_spec lo hi g =
     (let (u, g1) = nextUniform g in (lo + of_int \<lfloor>u * (hi - lo)\<rfloor>, g1))"

text \<open>
  Modelled from the spec: the weighted choice of \<^verbatim>\<open>randomWeights\<close>, the first position
  whose cumulated weight exceeds the draw (the last position when none does).
\<close>

fun pickWeighted :: "real \<Rightarrow> real list \<Rightarrow> nat" where
  "pickWeighted u [] = 0"
| "pickWeighted u [w] = 0"
| "pickWeighted u (w # ws) = (if u < w then 0 else Suc (pickWeighted (u - w) ws))"

definition randomIndex_spec :: "real list \<Rightarrow> nat \<Rightarrow> nat \<times> nat" where
  "randomIndex_spec ws g = (let (u, g1) = nextUniform g in (pickWeighted u ws, g1))"

text \<open>Modelled from the spec: a shuffle returns a permutation; here a rotation by a drawn amount.\<close>

definition shuffle_spec :: "(real \<times> real) list \<Rightarrow> nat \<Rightarrow> (real \<times> real) list \<times> nat" where
  "shuffle_spec ps g =
     (let (u, g1) = nextUniform g in (rotate (nat \<lfloor>u * of_nat (length ps)\<rfloor>) ps, g1))"

text \<open>
  Modelled from the spec: the scatter-sampling capability returns finitely many points
  of the shape, no two closer than the minimum spacing; here the points of a grid of
  step 2 that lie in the shape.
\<close>

definition poisson_spec :: "real \<Rightarrow> real \<Rightarrow> nat \<Rightarrow> (real \<times> real) list \<times> nat" where
  "poisson_spec w h g =
     (concat (map (\<lambda>a. map (\<lambda>b. (2 * of_nat a, 2 * of_nat b)) [0..<nat \<lceil>h / 2\<rceil>])
                  [0..<nat \<lceil>w / 2\<rceil>]),
      snd (nextUniform g))"

definition specUtils :: "nat Utils" where
  "specUtils = \<lparr>random_num = random_spec, randomIndex = randomIndex_spec,
                shuffleArray = shuffle_spec, poissonFill = poisson_spec\<rparr>"

text \<open>The parameters of the specification's example scenario.\<close>

definition exampleArgs :: DungeonArgs where
  "exampleArgs = \<lparr>mapWidth = 64, mapHeight = 48, mapGutterWidth = 1, iterations = 4,
     containerGutterWidth = 1, containerWidthRatio = 45 / 100, containerHeightRatio = 45 / 100,
     roomGutterWidth = 1, roomMaxMonsters = 4, roomMinSize = 4, roomHoleChance = 1 / 2,
     corridorWidth = 2, corridorTrapChance = 1 / 2\<rparr>"

text \<open>
  Stand-ins for the constants of \<^verbatim>\<open>types.ts\<close> and the tables of \<^verbatim>\<open>patterns.ts\<close>, used
  to run the model: four one-bit flags for the sides, two more for the upper diagonals,
  the two corner constants as the sides they name, a corridor being horizontal when it
  is wider than high.
\<close>

definition exampleTypes :: Types where
  "exampleTypes = \<lparr>West = 2, East = 4, North = 1, South = 8, NorthEast = 16, NorthWest = 32,
     DirectionNWS = 11, DirectionNES = 13,
     corridorDirection = (\<lambda>c. if width c > height c then Horizontal else Vertical)\<rparr>"

definition examplePatterns :: Patterns where
  "examplePatterns =
     \<lparr>holesAll = [\<lparr>patternWidth = 2, patternHeight = 2, tiles = [[-1, -1], [-1, -1]]\<rparr>,
                  \<lparr>patternWidth = 1, patternHeight = 1, tiles = [[-1]]\<rparr>],
      trapsSmallLarge = \<lparr>patternWidth = 2, patternHeight = 1, tiles = [[1, 1]]\<rparr>,
      trapsSmallLong = \<lparr>patternWidth = 1, patternHeight = 2, tiles = [[1], [1]]\<rparr>\<rparr>"

text \<open>A map of 5 by 8 tiles with a border of one tile, split once.\<close>

definition smallArgs :: DungeonArgs where
  "smallArgs = \<lparr>mapWidth = 5, mapHeight = 8, mapGutterWidth = 1, iterations = 1,
     containerGutterWidth = 0, containerWidthRatio = 45 / 100, containerHeightRatio = 45 / 100,
     roomGutterWidth = 0, roomMaxMonsters = 2, roomMinSize = 2, roomHoleChance = 1 / 2,
     corridorWidth = 2, corridorTrapChance = 1 / 2\<rparr>"

text \<open>The tree that the constructor builds for \<open>smallArgs\<close> from the random source 14.\<close>

definition smallTree :: "Container TreeNode" where
  "smallTree =
     TreeNode
       \<lparr>x = 1, y = 1, width = 3, height = 6, room = None,
          corridor = Some \<lparr>x = 3, y = 3, width = 2, height = 3, traps = None\<rparr>\<rparr>
       (Some (TreeNode
          \<lparr>x = 1, y = 1, width = 3, height = 3,
             room = Some \<lparr>x = 1, y = 1, width = 3, height = 3,
                      holes = Some \<lparr>patternWidth = 1, patternHeight = 1, tiles = [[-1]]\<rparr>\<rparr>,
             corridor = None\<rparr>
          None None))
       (Some (TreeNode
          \<lparr>x = 1, y = 4, width = 3, height = 3,
             room = Some \<lparr>x = 1, y = 4, width = 3, height = 3, holes = None\<rparr>,
             corridor = None\<rparr>
          None None))"

text \<open>
  The state of a pass over the cells of a grid, in row-major order, that has reached
  the cell \<open>(row, col)\<close>: the cells before it hold their final value, the others
  their old one.
\<close>

definition processed :: "nat \<Rightarrow> nat \<Rightarrow> nat \<Rightarrow> nat \<Rightarrow> bool" where
  "processed row col j i = (j < row \<or> (j = row \<and> i < col))"

definition partlyDone :: "(nat \<Rightarrow> nat \<Rightarrow> int) \<Rightarrow> TileMap \<Rightarrow> nat \<Rightarrow> nat \<Rightarrow> TileMap" where
  "partlyDone final tm row col =
     map (\<lambda>j. map (\<lambda>i. if processed row col j i then final j i else tm ! j ! i)
                 [0..<length (tm ! j)])
         [0..<length tm]"

text \<open>The cell \<open>(row, col)\<close> lies in a rectangle, as the carving loops test it.\<close>

definition inRect :: "'a Rectangle_scheme \<Rightarrow> nat \<Rightarrow> nat \<Rightarrow> bool" where
  "inRect r row col =
     (y r \<le> of_nat row \<and> of_nat row < rect_down r \<and> x r \<le> of_nat col \<and> of_nat col < rect_right r)"

text \<open>
  The grid \<open>tm'\<close> is \<open>tm\<close> with the cells of the rectangles in \<open>S\<close> set to 0 and
  nothing else changed.
\<close>

definition carvedBy :: "'a Rectangle_scheme set \<Rightarrow> TileMap \<Rightarrow> TileMap \<Rightarrow> bool" where
  "carvedBy S tm tm' =
     (length tm' = length tm \<and>
      (\<forall>j < length tm. length (tm' ! j) = length (tm ! j) \<and>
         (\<forall>i < length (tm ! j).
            tm' ! j ! i = (if \<exists>r \<in> S. inRect r j i then 0 else tm ! j ! i))))"

text \<open>The corridors of all the nodes of a tree.\<close>

definition corridors :: "Container TreeNode \<Rightarrow> Corridor list" where
  "corridors t = concat (map (\<lambda>d. case corridor d of None \<Rightarrow> [] | Some c \<Rightarrow> [c]) (nodes t))"

text \<open>
  The shape that \<open>generateCorridors\<close> gives a tree of \<open>generateTree\<close>: the nodes with two
  children carry a corridor, the nodes without children carry none.
\<close>

fun corridorTree :: "Container TreeNode \<Rightarrow> bool" where
  "corridorTree (TreeNode d None None) = (corridor d = None)"
| "corridorTree (TreeNode d (Some l) (Some r)) =
     (corridor d \<noteq> None \<and> corridorTree l \<and> corridorTree r)"
| "corridorTree (TreeNode d lo ro) = False"

text \<open>
  The calls of \<open>splitContainer\<close> that \<open>generateTree\<close> makes for \<open>n\<close> levels, in the order
  in which it makes them, each with the container and the state of the random source
  that it is given. The second component is the state of the random source at the end,
  \<open>None\<close> when a call did not return: nothing is called after such a call.
\<close>

fun splitCalls ::
  "'g Utils \<Rightarrow> DungeonArgs \<Rightarrow> nat \<Rightarrow> Container \<Rightarrow> 'g \<Rightarrow> (Container \<times> 'g) list \<times> 'g option" where
  "splitCalls U args 0 c g = ([], Some g)"
| "splitCalls U args (Suc n) c g =
     (case splitContainer U args c g of
        None \<Rightarrow> ([(c, g)], None)
      | Some ((l, r), g1) \<Rightarrow>
          (case splitCalls U args n l g1 of
             (calls1, None) \<Rightarrow> ((c, g) # calls1, None)
           | (calls1, Some g2) \<Rightarrow>
               (case splitCalls U args n r g2 of
                  (calls2, s) \<Rightarrow> ((c, g) # calls1 @ calls2, s))))"

text \<open>
  The states of the random source at which a \<^verbatim>\<open>forEach\<close> over the leaves calls its
  callback, leaf after leaf.
\<close>

fun visitStates ::
  "(Container \<Rightarrow> 'g \<Rightarrow> Container \<times> 'g) \<Rightarrow> Container list \<Rightarrow> 'g \<Rightarrow> 'g list" where
  "visitStates f [] g = []"
| "visitStates f (d # ds) g = g # visitStates f ds (snd (f d g))"

text \<open>A rectangle lies inside another one.\<close>

definition inside :: "'a Rectangle_scheme \<Rightarrow> 'b Rectangle_scheme \<Rightarrow> bool" where
  "inside r c =
     (x c \<le> x r \<and> y c \<le> y r \<and> x r + width r \<le> x c + width c \<and>
      y r + height r \<le> y c + height c)"

text \<open>A rectangle whose origin and size are whole numbers.\<close>

definition wholeRect :: "'a Rectangle_scheme \<Rightarrow> bool" where
  "wholeRect r = (x r \<in> \<int> \<and> y r \<in> \<int> \<and> width r \<in> \<int> \<and> height r \<in> \<int>)"

text \<open>
  What the properties ask of the absent helpers: \<open>random(lo, hi)\<close> is not below \<open>lo\<close>
  when \<open>lo \<le> hi\<close>, and is a whole number when \<open>lo\<close> is one; \<open>randomWeights\<close> with the
  weights 0 and 1 never draws the first position; a shuffle returns elements of its
  argument only; the sampler returns points of its shape.
\<close>

definition randomAtLeastLo :: "'g Utils \<Rightarrow> bool" where
  "randomAtLeastLo U = (\<forall>lo hi g. lo \<le> hi \<longrightarrow> lo \<le> fst (random_num U lo hi g))"

definition randomWhole :: "'g Utils \<Rightarrow> bool" where
  "randomWhole U = (\<forall>lo hi g. lo \<in> \<int> \<longrightarrow> fst (random_num U lo hi g) \<in> \<int>)"


definition shuffleKeeps :: "'g Utils \<Rightarrow> bool" where
  "shuffleKeeps U = (\<forall>ps g. set (fst (shuffleArray U ps g)) \<subseteq> set ps)"

definition poissonInShape :: "'g Utils \<Rightarrow> bool" where
  "poissonInShape U =
     (\<forall>w h g. \<forall>p \<in> set (fst (poissonFill U w h g)).
        0 \<le> fst p \<and> fst p < w \<and> 0 \<le> snd p \<and> snd p < h)"

text \<open>
  The monsters that \<open>generateMonsters\<close> pushes while it visits each leaf, with the state
  of the random source at the start of the visit.
\<close>

fun monsterGroups ::
  "'g Utils \<Rightarrow> DungeonArgs \<Rightarrow> Container list \<Rightarrow> 'g \<Rightarrow> ('g \<times> Monster list) list" where
  "monsterGroups U args [] g = []"
| "monsterGroups U args (node # rest) g =
     (let (monsters1, g1) = monstersOfLeaf U args node [] g
      in (g, monsters1) # monsterGroups U args rest g1)"

text \<open>The part of a room that is left when the gutter is taken off on every side.\<close>

definition inGutterInset :: "DungeonArgs \<Rightarrow> Room \<Rightarrow> Monster \<Rightarrow> bool" where
  "inGutterInset args rm m =
     (x rm + roomGutterWidth args \<le> x m \<and> x m < x rm + width rm - roomGutterWidth args \<and>
      y rm + roomGutterWidth args \<le> y m \<and> y m < y rm + height rm - roomGutterWidth args)"

text \<open>
  The mask of a cell as the specification words it: a neighbour counts as solid when
  it lies beyond the boundary of the grid or holds a value above 0; the mask is the
  union of the flags of the sides whose neighbour is solid.
\<close>

definition solidNeighbour :: "TileMap \<Rightarrow> int \<Rightarrow> int \<Rightarrow> bool" where
  "solidNeighbour tm row col =
     (if row < 0 \<or> int (length tm) \<le> row \<or> col < 0 \<or> int (length (tm ! nat row)) \<le> col
      then True else tm ! nat row ! nat col > 0)"

definition neighbourMask :: "Types \<Rightarrow> TileMap \<Rightarrow> nat \<Rightarrow> nat \<Rightarrow> int" where
  "neighbourMask T tm row col =
     (if solidNeighbour tm (int row) (int col - 1) then West T else 0) OR
     (if solidNeighbour tm (int row) (int col + 1) then East T else 0) OR
     (if solidNeighbour tm (int row - 1) (int col) then North T else 0) OR
     (if solidNeighbour tm (int row + 1) (int col) then South T else 0)"

text \<open>The value that the mask pass is to leave in a cell: the mask for a solid cell.\<close>

definition maskedCell :: "Types \<Rightarrow> TileMap \<Rightarrow> nat \<Rightarrow> nat \<Rightarrow> int" where
  "maskedCell T tm row col =
     (if tm ! row ! col > 0 then neighbourMask T tm row col else tm ! row ! col)"

section \<open>Properties of the partition tree\<close>

subsection \<open>What a returned split looks like\<close>

lemma splitContainer_accepted:
  assumes "splitContainer U args c g = Some res"
  shows "acceptedSplit args c (fst (fst res)) (snd (fst res))"
proof (rule splitContainer.raw_induct
    [where P = "\<lambda>U args c g res. acceptedSplit args c (fst (fst res)) (snd (fst res))",
     OF _ assms], goal_cases)
  case (1 sc U args c g res)
  obtain d g1 where rw: "randomWeights U [1 / 2, 1 / 2] [Vertical, Horizontal] g = (d, g1)"
    by (cases "randomWeights U [1 / 2, 1 / 2] [Vertical, Horizontal] g")
  show ?case
  proof (cases "d = Some Vertical")
    case vert: True
    obtain w g2 where rn: "random_num U 1 (width c) g1 = (w, g2)"
      by (cases "random_num U 1 (width c) g1")
    let ?l = "newContainer (x c) (y c) w (height c)"
    let ?r = "newContainer (x c + width ?l) (y c) (width c - width ?l) (height c)"
    let ?bad = "js_div_lt (width ?l) (height ?l) (containerWidthRatio args) \<or>
                js_div_lt (width ?r) (height ?r) (containerWidthRatio args)"
    from 1(2) rw vert rn
    have eq: "(if ?bad then sc U args c g2 else Some ((?l, ?r), g2)) = Some res"
      by (simp add: Let_def)
    show ?thesis
    proof (cases ?bad)
      case True
      with eq have "sc U args c g2 = Some res" by simp
      then show ?thesis by (rule 1(1))
    next
      case False
      with eq have lr: "res = ((?l, ?r), g2)" by simp
      have "verticalSplit c ?l ?r"
        by (simp add: verticalSplit_def newContainer_def)
      with False lr show ?thesis by (simp add: acceptedSplit_def)
    qed
  next
    case horiz: False
    obtain h g2 where rn: "random_num U 1 (height c) g1 = (h, g2)"
      by (cases "random_num U 1 (height c) g1")
    let ?l = "newContainer (x c) (y c) (width c) h"
    let ?r = "newContainer (x c) (y c + height ?l) (width c) (height c - height ?l)"
    let ?bad = "js_div_lt (height ?l) (width ?l) (containerHeightRatio args) \<or>
                js_div_lt (height ?r) (width ?r) (containerHeightRatio args)"
    from 1(2) rw horiz rn
    have eq: "(if ?bad then sc U args c g2 else Some ((?l, ?r), g2)) = Some res"
      by (simp add: Let_def)
    show ?thesis
    proof (cases ?bad)
      case True
      with eq have "sc U args c g2 = Some res" by simp
      then show ?thesis by (rule 1(1))
    next
      case False
      with eq have lr: "res = ((?l, ?r), g2)" by simp
      have "horizontalSplit c ?l ?r"
        by (simp add: horizontalSplit_def newContainer_def)
      with False lr show ?thesis by (simp add: acceptedSplit_def)
    qed
  qed
qed

lemma splitContainer_plain:
  assumes "splitContainer U args c g = Some res"
  shows "room (fst (fst res)) = None \<and> corridor (fst (fst res)) = None \<and>
         room (snd (fst res)) = None \<and> corridor (snd (fst res)) = None"
proof (rule splitContainer.raw_induct
    [where P = "\<lambda>U args c g res. room (fst (fst res)) = None \<and> corridor (fst (fst res)) = None \<and>
         room (snd (fst res)) = None \<and> corridor (snd (fst res)) = None",
     OF _ assms], goal_cases)
  case (1 sc U args c g res)
  obtain d g1 where rw: "randomWeights U [1 / 2, 1 / 2] [Vertical, Horizontal] g = (d, g1)"
    by (cases "randomWeights U [1 / 2, 1 / 2] [Vertical, Horizontal] g")
  show ?case
  proof (cases "d = Some Vertical")
    case vert: True
    obtain w g2 where rn: "random_num U 1 (width c) g1 = (w, g2)"
      by (cases "random_num U 1 (width c) g1")
    let ?l = "newContainer (x c) (y c) w (height c)"
    let ?r = "newContainer (x c + width ?l) (y c) (width c - width ?l) (height c)"
    let ?bad = "js_div_lt (width ?l) (height ?l) (containerWidthRatio args) \<or>
                js_div_lt (width ?r) (height ?r) (containerWidthRatio args)"
    from 1(2) rw vert rn
    have eq: "(if ?bad then sc U args c g2 else Some ((?l, ?r), g2)) = Some res"
      by (simp add: Let_def)
    show ?thesis
    proof (cases ?bad)
      case True
      with eq have "sc U args c g2 = Some res" by simp
      then show ?thesis by (rule 1(1))
    next
      case False
      with eq have "res = ((?l, ?r), g2)" by simp
      then show ?thesis by (simp add: newContainer_def)
    qed
  next
    case horiz: False
    obtain h g2 where rn: "random_num U 1 (height c) g1 = (h, g2)"
      by (cases "random_num U 1 (height c) g1")
    let ?l = "newContainer (x c) (y c) (width c) h"
    let ?r = "newContainer (x c) (y c + height ?l) (width c) (height c - height ?l)"
    let ?bad = "js_div_lt (height ?l) (width ?l) (containerHeightRatio args) \<or>
                js_div_lt (height ?r) (width ?r) (containerHeightRatio args)"
    from 1(2) rw horiz rn
    have eq: "(if ?bad then sc U args c g2 else Some ((?l, ?r), g2)) = Some res"
      by (simp add: Let_def)
    show ?thesis
    proof (cases ?bad)
      case True
      with eq have "sc U args c g2 = Some res" by simp
      then show ?thesis by (rule 1(1))
    next
      case False
      with eq have "res = ((?l, ?r), g2)" by simp
      then show ?thesis by (simp add: newContainer_def)
    qed
  qed
qed

lemma splitContainer_drawn:
  assumes "splitContainer U args c g = Some res"
  shows "\<exists>g0. (let w = fst (random_num U 1 (width c) g0)
               in fst res = (newContainer (x c) (y c) w (height c),
                             newContainer (x c + w) (y c) (width c - w) (height c))) \<or>
              (let h = fst (random_num U 1 (height c) g0)
               in fst res = (newContainer (x c) (y c) (width c) h,
                             newContainer (x c) (y c + h) (width c) (height c - h)))"
proof (rule splitContainer.raw_induct
    [where P = "\<lambda>U args c g res.
       \<exists>g0. (let w = fst (random_num U 1 (width c) g0)
               in fst res = (newContainer (x c) (y c) w (height c),
                             newContainer (x c + w) (y c) (width c - w) (height c))) \<or>
              (let h = fst (random_num U 1 (height c) g0)
               in fst res = (newContainer (x c) (y c) (width c) h,
                             newContainer (x c) (y c + h) (width c) (height c - h)))",
     OF _ assms], goal_cases)
  case (1 sc U args c g res)
  obtain d g1 where rw: "randomWeights U [1 / 2, 1 / 2] [Vertical, Horizontal] g = (d, g1)"
    by (cases "randomWeights U [1 / 2, 1 / 2] [Vertical, Horizontal] g")
  show ?case
  proof (cases "d = Some Vertical")
    case vert: True
    obtain w g2 where rn: "random_num U 1 (width c) g1 = (w, g2)"
      by (cases "random_num U 1 (width c) g1")
    let ?l = "newContainer (x c) (y c) w (height c)"
    let ?r = "newContainer (x c + width ?l) (y c) (width c - width ?l) (height c)"
    let ?bad = "js_div_lt (width ?l) (height ?l) (containerWidthRatio args) \<or>
                js_div_lt (width ?r) (height ?r) (containerWidthRatio args)"
    from 1(2) rw vert rn
    have eq: "(if ?bad then sc U args c g2 else Some ((?l, ?r), g2)) = Some res"
      by (simp add: Let_def)
    show ?thesis
    proof (cases ?bad)
      case True
      with eq have "sc U args c g2 = Some res" by simp
      then show ?thesis by (rule 1(1))
    next
      case False
      with eq have "res = ((?l, ?r), g2)" by simp
      with rn show ?thesis
        by (intro exI [of _ g1] disjI1) (simp add: newContainer_def)
    qed
  next
    case horiz: False
    obtain h g2 where rn: "random_num U 1 (height c) g1 = (h, g2)"
      by (cases "random_num U 1 (height c) g1")
    let ?l = "newContainer (x c) (y c) (width c) h"
    let ?r = "newContainer (x c) (y c + height ?l) (width c) (height c - height ?l)"
    let ?bad = "js_div_lt (height ?l) (width ?l) (containerHeightRatio args) \<or>
                js_div_lt (height ?r) (width ?r) (containerHeightRatio args)"
    from 1(2) rw horiz rn
    have eq: "(if ?bad then sc U args c g2 else Some ((?l, ?r), g2)) = Some res"
      by (simp add: Let_def)
    show ?thesis
    proof (cases ?bad)
      case True
      with eq have "sc U args c g2 = Some res" by simp
      then show ?thesis by (rule 1(1))
    next
      case False
      with eq have "res = ((?l, ?r), g2)" by simp
      with rn show ?thesis
        by (intro exI [of _ g1] disjI2) (simp add: newContainer_def)
    qed
  qed
qed

lemma splitContainer_whole:
  assumes "splitContainer U args c g = Some ((l, r), g')"
    and "randomWhole U" and "wholeRect c"
  shows "wholeRect l \<and> wholeRect r"
proof -
  have w: "fst (random_num U 1 hi g0) \<in> \<int>" for hi g0
    using assms(2) unfolding randomWhole_def by simp
  from splitContainer_drawn [OF assms(1)] assms(3) show ?thesis
    by (auto simp: Let_def wholeRect_def newContainer_def w)
qed

lemma js_div_lt_longToShort:
  assumes "\<not> js_div_lt a b r" and "0 < a" and "0 < b"
  shows "r \<le> max a b / min a b"
proof -
  from assms have "r \<le> a / b" by (simp add: js_div_lt_def)
  also have "a / b \<le> max a b / min a b"
  proof (rule frac_le)
    show "0 \<le> max a b" using assms(2) by simp
    show "a \<le> max a b" by simp
    show "0 < min a b" using assms(2,3) by simp
    show "min a b \<le> b" by simp
  qed
  finally show ?thesis .
qed

lemma run_split:
  "splitContainer specUtils exampleArgs (newContainer 1 1 62 46) 0 =
     Some ((newContainer 1 1 27 46, newContainer 28 1 35 46), 6)"
  by (simp add: splitContainer.simps specUtils_def exampleArgs_def randomWeights_def
      randomIndex_spec_def random_spec_def nextUniform_def Let_def js_div_lt_def newContainer_def)

text \<open>
  C6. The two children that \<open>splitContainer\<close> returns partition the parent along one
  axis: after a vertical split both have the parent's \<open>y\<close> and height, the left child
  starts at the parent's \<open>x\<close>, the right child starts where the left one ends and the
  widths add up to the parent's width; after a horizontal split the same holds with the
  axes exchanged.
\<close>

theorem splitContainer_partition:
  assumes "splitContainer U args c g = Some ((l, r), g')"
  shows "(x l = x c \<and> y l = y c \<and> y r = y c \<and> height l = height c \<and> height r = height c \<and>
          width l + width r = width c \<and> x r = x l + width l) \<or>
         (x l = x c \<and> y l = y c \<and> x r = x c \<and> width l = width c \<and> width r = width c \<and>
          height l + height r = height c \<and> y r = y l + height l)"
proof -
  from splitContainer_accepted [OF assms]
  have "verticalSplit c l r \<or> horizontalSplit c l r"
    unfolding acceptedSplit_def fst_conv snd_conv by (elim disjE conjE) simp_all
  then show ?thesis
    unfolding verticalSplit_def horizontalSplit_def .
qed

theorem splitContainer_partition_witness:
  "splitContainer specUtils exampleArgs (newContainer 1 1 62 46) 0 =
     Some ((newContainer 1 1 27 46, newContainer 28 1 35 46), 6) \<and>
   y (newContainer 28 1 35 46) = y (newContainer 1 1 62 46) \<and>
   width (newContainer 1 1 27 46) + width (newContainer 28 1 35 46) =
     width (newContainer 1 1 62 46) \<and>
   x (newContainer 28 1 35 46) = x (newContainer 1 1 27 46) + width (newContainer 1 1 27 46)"
  using splitContainer_partition [OF run_split] run_split
  by (simp add: newContainer_def)

text \<open>
  C9. A pair returned by \<open>splitContainer\<close> has passed the acceptance test: after a
  vertical split neither child has width / height below \<open>containerWidthRatio\<close>, after a
  horizontal split neither child has height / width below \<open>containerHeightRatio\<close>; a
  candidate that fails the test is therefore never returned. For a child with positive
  sides the ratio of its longer to its shorter side is then not below that minimum
  either.
\<close>

theorem splitContainer_ratio:
  assumes "splitContainer U args c g = Some ((l, r), g')"
  shows "(verticalSplit c l r \<and>
          \<not> js_div_lt (width l) (height l) (containerWidthRatio args) \<and>
          \<not> js_div_lt (width r) (height r) (containerWidthRatio args) \<and>
          (0 < width l \<and> 0 < height l \<longrightarrow> containerWidthRatio args \<le> longToShort l) \<and>
          (0 < width r \<and> 0 < height r \<longrightarrow> containerWidthRatio args \<le> longToShort r)) \<or>
         (horizontalSplit c l r \<and>
          \<not> js_div_lt (height l) (width l) (containerHeightRatio args) \<and>
          \<not> js_div_lt (height r) (width r) (containerHeightRatio args) \<and>
          (0 < width l \<and> 0 < height l \<longrightarrow> containerHeightRatio args \<le> longToShort l) \<and>
          (0 < width r \<and> 0 < height r \<longrightarrow> containerHeightRatio args \<le> longToShort r))"
proof -
  from splitContainer_accepted [OF assms] have acc: "acceptedSplit args c l r" by simp
  show ?thesis
  proof (cases "verticalSplit c l r \<and>
          \<not> js_div_lt (width l) (height l) (containerWidthRatio args) \<and>
          \<not> js_div_lt (width r) (height r) (containerWidthRatio args)")
    case True
    then show ?thesis
      using js_div_lt_longToShort [of "width l" "height l" "containerWidthRatio args"]
        js_div_lt_longToShort [of "width r" "height r" "containerWidthRatio args"]
      by (simp add: longToShort_def)
  next
    case False
    with acc have h: "horizontalSplit c l r"
      "\<not> js_div_lt (height l) (width l) (containerHeightRatio args)"
      "\<not> js_div_lt (height r) (width r) (containerHeightRatio args)"
      by (auto simp: acceptedSplit_def)
    then show ?thesis
      using js_div_lt_longToShort [of "height l" "width l" "containerHeightRatio args"]
        js_div_lt_longToShort [of "height r" "width r" "containerHeightRatio args"]
      by (simp add: longToShort_def max.commute min.commute)
  qed
qed

theorem splitContainer_ratio_witness:
  "splitContainer specUtils exampleArgs (newContainer 1 1 62 46) 0 =
     Some ((newContainer 1 1 27 46, newContainer 28 1 35 46), 6) \<and>
   \<not> js_div_lt 27 46 (containerWidthRatio exampleArgs) \<and>
   \<not> js_div_lt 35 46 (containerWidthRatio exampleArgs) \<and>
   containerWidthRatio exampleArgs \<le> longToShort (newContainer 1 1 27 46) \<and>
   \<not> horizontalSplit (newContainer 1 1 62 46) (newContainer 1 1 27 46) (newContainer 28 1 35 46)"
  using splitContainer_ratio [OF run_split] run_split
  by (simp add: newContainer_def horizontalSplit_def)


subsection \<open>The tree\<close>

lemma generateTree_step:
  assumes "(if n \<noteq> 0 then
       Option.bind (splitContainer U args c g) (\<lambda>((l, r), g1).
       Option.bind (gt U args l (n - 1) g1) (\<lambda>(lt, g2).
       Option.bind (gt U args r (n - 1) g2) (\<lambda>(rt, g3).
         Some (TreeNode c (Some lt) (Some rt), g3))))
     else Some (TreeNode c None None, g)) = Some res"
  shows "(n = 0 \<and> res = (TreeNode c None None, g)) \<or>
         (n \<noteq> 0 \<and> (\<exists>l r g1 lt g2 rt g3.
            splitContainer U args c g = Some ((l, r), g1) \<and>
            gt U args l (n - 1) g1 = Some (lt, g2) \<and>
            gt U args r (n - 1) g2 = Some (rt, g3) \<and>
            res = (TreeNode c (Some lt) (Some rt), g3)))"
proof (cases "n = 0")
  case True
  with assms show ?thesis by simp
next
  case False
  with assms obtain s where s: "splitContainer U args c g = Some s"
    and r1: "(case s of ((l, r), g1) \<Rightarrow>
       Option.bind (gt U args l (n - 1) g1) (\<lambda>(lt, g2).
       Option.bind (gt U args r (n - 1) g2) (\<lambda>(rt, g3).
         Some (TreeNode c (Some lt) (Some rt), g3)))) = Some res"
    by (auto simp: bind_eq_Some_conv)
  obtain l r g1 where sv: "s = ((l, r), g1)" by (metis surj_pair)
  from r1 sv obtain a where a: "gt U args l (n - 1) g1 = Some a"
    and r2: "(case a of (lt, g2) \<Rightarrow>
       Option.bind (gt U args r (n - 1) g2) (\<lambda>(rt, g3).
         Some (TreeNode c (Some lt) (Some rt), g3))) = Some res"
    by (auto simp: bind_eq_Some_conv)
  obtain lt g2 where av: "a = (lt, g2)" by (metis surj_pair)
  from r2 av obtain b where b: "gt U args r (n - 1) g2 = Some b"
    and r3: "(case b of (rt, g3) \<Rightarrow> Some (TreeNode c (Some lt) (Some rt), g3)) = Some res"
    by (auto simp: bind_eq_Some_conv)
  obtain rt g3 where bv: "b = (rt, g3)" by (metis surj_pair)
  from r3 bv have "res = (TreeNode c (Some lt) (Some rt), g3)" by simp
  with False s sv a av b bv show ?thesis by blast
qed

lemma generateTree_nodes:
  assumes run: "generateTree U args c n g = Some res"
    and inv: "Inv c"
    and step: "\<And>c l r g g'. Inv c \<Longrightarrow> splitContainer U args c g = Some ((l, r), g') \<Longrightarrow>
                 Inv l \<and> Inv r"
  shows "\<forall>d \<in> set (nodes (fst res)). Inv d"
proof -
  have "U = U \<and> args = args \<longrightarrow> Inv c \<longrightarrow> (\<forall>d \<in> set (nodes (fst res)). Inv d)"
  proof (rule generateTree.raw_induct
    [where P = "\<lambda>V a c n g res. V = U \<and> a = args \<longrightarrow> Inv c \<longrightarrow>
                  (\<forall>d \<in> set (nodes (fst res)). Inv d)",
     OF _ run], goal_cases)
    case (1 gt V a c n g res)
    show ?case
    proof (intro impI)
      assume a: "V = U \<and> a = args" and c: "Inv c"
      from generateTree_step [where gt = gt, OF 1(2)]
      show "\<forall>d \<in> set (nodes (fst res)). Inv d"
      proof (elim disjE conjE exE)
        assume "n = 0" "res = (TreeNode c None None, g)"
        with c show ?thesis by simp
      next
        fix l r g1 lt g2 rt g3
        assume s: "splitContainer V a c g = Some ((l, r), g1)"
          and l: "gt V a l (n - 1) g1 = Some (lt, g2)"
          and r: "gt V a r (n - 1) g2 = Some (rt, g3)"
          and res: "res = (TreeNode c (Some lt) (Some rt), g3)"
        from s a have "splitContainer U args c g = Some ((l, r), g1)" by simp
        from step [OF c this] have "Inv l" "Inv r" by simp_all
        with 1(1) [OF l] 1(1) [OF r] a
        have "\<forall>d \<in> set (nodes lt). Inv d" "\<forall>d \<in> set (nodes rt). Inv d" by simp_all
        with c res show ?thesis by auto
      qed
    qed
  qed
  with inv show ?thesis by simp
qed

lemma generateTree_root:
  assumes "generateTree U args c n g = Some res"
  shows "leaf (fst res) = c"
  using generateTree_step [where gt = generateTree,
      OF assms [unfolded generateTree.simps [of U args c n g]]]
  by auto

lemma generateTree_whole:
  assumes run: "generateTree U args c n g = Some (t, g')"
    and "randomWhole U" and "wholeRect c"
  shows "\<forall>d \<in> set (nodes t). wholeRect d"
proof -
  have "\<forall>d \<in> set (nodes (fst (t, g'))). wholeRect d"
  proof (rule generateTree_nodes [OF run, where Inv = wholeRect])
    show "wholeRect c" by fact
  next
    fix d l r g0 g1
    assume "wholeRect d" "splitContainer U args d g0 = Some ((l, r), g1)"
    from splitContainer_whole [OF this(2) assms(2) this(1)]
    show "wholeRect l \<and> wholeRect r" .
  qed
  then show ?thesis by simp
qed

lemma generateTree_shape:
  assumes "generateTree U args c n g = Some (t, g')"
  shows "0 \<le> n \<and> length (leaves t) = 2 ^ nat n \<and>
         set (pathLengths t) = {nat n} \<and> fullTree t"
proof -
  have "0 \<le> n \<and> length (leaves (fst (t, g'))) = 2 ^ nat n \<and>
         set (pathLengths (fst (t, g'))) = {nat n} \<and> fullTree (fst (t, g'))"
  proof (rule generateTree.raw_induct
      [where P = "\<lambda>U args c n g res. 0 \<le> n \<and> length (leaves (fst res)) = 2 ^ nat n \<and>
           set (pathLengths (fst res)) = {nat n} \<and> fullTree (fst res)",
       OF _ assms], goal_cases)
    case (1 gt U args c n g res)
    from generateTree_step [where gt = gt, OF 1(2)] show ?case
    proof (elim disjE conjE exE)
      assume "n = 0" "res = (TreeNode c None None, g)"
      then show ?thesis by simp
    next
      fix l r g1 lt g2 rt g3
      assume n: "n \<noteq> 0"
        and l: "gt U args l (n - 1) g1 = Some (lt, g2)"
        and r: "gt U args r (n - 1) g2 = Some (rt, g3)"
        and res: "res = (TreeNode c (Some lt) (Some rt), g3)"
      from 1(1) [OF l] have il: "0 \<le> n - 1" "length (leaves lt) = 2 ^ nat (n - 1)"
        "set (pathLengths lt) = {nat (n - 1)}" "fullTree lt" by simp_all
      from 1(1) [OF r] have ir: "length (leaves rt) = 2 ^ nat (n - 1)"
        "set (pathLengths rt) = {nat (n - 1)}" "fullTree rt" by simp_all
      from il(1) have sn: "nat n = Suc (nat (n - 1))" by simp
      have "length (leaves (fst res)) = 2 ^ nat n"
        unfolding res sn using il(2) ir(1) by simp
      moreover have "set (pathLengths (fst res)) = {nat n}"
        unfolding res sn using il(3) ir(2) by (simp add: image_Un)
      moreover have "fullTree (fst res)" unfolding res using il(4) ir(3) by simp
      ultimately show ?thesis using il(1) by simp
    qed
  qed
  then show ?thesis by simp
qed

lemma generateTree_total:
  assumes "list_all (\<lambda>(c', g'). splitContainer U args c' g' \<noteq> None)
             (fst (splitCalls U args n c g))"
  shows "\<exists>t g'. generateTree U args c (int n) g = Some (t, g') \<and>
           snd (splitCalls U args n c g) = Some g'"
  using assms
proof (induction n arbitrary: c g)
  case 0
  show ?case by (simp add: generateTree.simps)
next
  case (Suc n)
  have first: "splitContainer U args c g \<noteq> None"
    using Suc.prems by (auto split: option.splits prod.splits)
  then obtain l r g1 where s: "splitContainer U args c g = Some ((l, r), g1)"
    by (metis not_None_eq surj_pair)
  obtain calls1 s1 where c1: "splitCalls U args n l g1 = (calls1, s1)" by (metis surj_pair)
  have a1: "list_all (\<lambda>(c', g'). splitContainer U args c' g' \<noteq> None) calls1"
    using Suc.prems s c1 by (auto split: option.splits prod.splits)
  from Suc.IH [of l g1] a1 c1 obtain lt g2 where
    l: "generateTree U args l (int n) g1 = Some (lt, g2)" and s1: "s1 = Some g2"
    by auto
  obtain calls2 s2 where c2: "splitCalls U args n r g2 = (calls2, s2)" by (metis surj_pair)
  have a2: "list_all (\<lambda>(c', g'). splitContainer U args c' g' \<noteq> None) calls2"
    using Suc.prems s c1 s1 c2 by simp
  from Suc.IH [of r g2] a2 c2 obtain rt g3 where
    r: "generateTree U args r (int n) g2 = Some (rt, g3)" and s2: "s2 = Some g3"
    by auto
  have e: "int (Suc n) - 1 = int n" by simp
  have "int (Suc n) \<noteq> 0" by simp
  then have "generateTree U args c (int (Suc n)) g = Some (TreeNode c (Some lt) (Some rt), g3)"
    by (subst generateTree.simps)
      (simp only: e s l r if_True Option.bind.simps prod.case, simp)
  moreover have "snd (splitCalls U args (Suc n) c g) = Some g3"
    using s c1 s1 c2 s2 by simp
  ultimately show ?case by simp
qed

text \<open>
  C1. For an iteration count \<open>n\<close> that is not negative, if every call of
  \<open>splitContainer\<close> that \<open>generateTree\<close> makes returns (the calls are those that
  \<open>splitCalls\<close> lists: the split of the container itself and, as long as the calls
  return, those of the children down to level \<open>n\<close>), then \<open>generateTree\<close> returns, and
  the tree that it returns is a full binary tree: every node has both children or none,
  there are exactly \<open>2 ^ n\<close> leaves, and every path from the root to a leaf has length
  \<open>n\<close>. (A tree returned for any count has this shape, and a negative count never
  returns one: \<open>generateTree_shape\<close>.)
\<close>

theorem generateTree_full:
  assumes "0 \<le> n"
    and "list_all (\<lambda>(c', g'). splitContainer U args c' g' \<noteq> None)
           (fst (splitCalls U args (nat n) c g))"
  shows "\<exists>t g'. generateTree U args c n g = Some (t, g') \<and>
           fullTree t \<and> length (leaves t) = 2 ^ nat n \<and> set (pathLengths t) = {nat n}"
proof -
  from generateTree_total [OF assms(2)] assms(1) obtain t g' where
    run: "generateTree U args c n g = Some (t, g')" by auto
  from generateTree_shape [OF run] run show ?thesis by blast
qed

lemma run_splitCalls:
  "list_all (\<lambda>(c', g'). splitContainer specUtils exampleArgs c' g' \<noteq> None)
     (fst (splitCalls specUtils exampleArgs 4 (rootContainer exampleArgs) 0))"
  by code_simp

theorem generateTree_full_witness:
  "(0::int) \<le> 4 \<and>
   list_all (\<lambda>(c', g'). splitContainer specUtils exampleArgs c' g' \<noteq> None)
     (fst (splitCalls specUtils exampleArgs (nat 4) (rootContainer exampleArgs) 0)) \<and>
   (\<exists>t g'. generateTree specUtils exampleArgs (rootContainer exampleArgs) 4 0 = Some (t, g') \<and>
      fullTree t \<and> length (leaves t) = 16 \<and> set (pathLengths t) = {4})"
proof -
  have n: "nat 4 = 4" by simp
  have h: "list_all (\<lambda>(c', g'). splitContainer specUtils exampleArgs c' g' \<noteq> None)
     (fst (splitCalls specUtils exampleArgs (nat 4) (rootContainer exampleArgs) 0))"
    unfolding n by (rule run_splitCalls)
  have "(0::int) \<le> 4" by simp
  from generateTree_full [OF this h] h show ?thesis by simp
qed

section \<open>Passes over a grid\<close>

lemma partlyDone_length [simp]: "length (partlyDone final tm row col) = length tm"
  by (simp add: partlyDone_def)

lemma partlyDone_row [simp]:
  "j < length tm \<Longrightarrow> length (partlyDone final tm row col ! j) = length (tm ! j)"
  by (simp add: partlyDone_def)

lemma partlyDone_nth:
  "j < length tm \<Longrightarrow> i < length (tm ! j) \<Longrightarrow>
   partlyDone final tm row col ! j ! i = (if processed row col j i then final j i else tm ! j ! i)"
  by (simp add: partlyDone_def)

lemma grid_eqI:
  assumes "length a = length b"
    and "\<And>j. j < length b \<Longrightarrow> length (a ! j) = length (b ! j)"
    and "\<And>j i. j < length b \<Longrightarrow> i < length (b ! j) \<Longrightarrow> a ! j ! i = b ! j ! i"
  shows "a = (b :: 'a list list)"
proof (rule nth_equalityI)
  show "length a = length b" by fact
next
  fix j assume j: "j < length a"
  with assms(1) have jb: "j < length b" by simp
  show "a ! j = b ! j"
  proof (rule nth_equalityI)
    show "length (a ! j) = length (b ! j)" using assms(2) jb by simp
  next
    fix i assume "i < length (a ! j)"
    with assms(2) [OF jb] have "i < length (b ! j)" by simp
    with assms(3) jb show "a ! j ! i = b ! j ! i" by simp
  qed
qed

lemma partlyDone_start: "partlyDone final tm 0 0 = tm"
  by (rule grid_eqI) (simp_all add: partlyDone_nth processed_def)

lemma partlyDone_step:
  assumes "row < length tm" and "col < length (tm ! row)"
  shows "(partlyDone final tm row col)
           [row := (partlyDone final tm row col ! row)[col := final row col]] =
         partlyDone final tm row (Suc col)"
proof (rule grid_eqI, goal_cases)
  case 1
  show ?case by simp
next
  case (2 j)
  then show ?case using assms by (cases "j = row") simp_all
next
  case (3 j i)
  then have j: "j < length tm" and i: "i < length (tm ! j)" by simp_all
  show ?case
  proof (cases "j = row")
    case True
    with j i assms show ?thesis
      by (cases "i = col") (auto simp: partlyDone_nth processed_def)
  next
    case False
    with j i assms show ?thesis
      by (auto simp: partlyDone_nth processed_def)
  qed
qed

lemma partlyDone_next_row:
  assumes "row < length tm"
  shows "partlyDone final tm row (length (tm ! row)) = partlyDone final tm (Suc row) 0"
proof (rule grid_eqI, goal_cases)
  case (3 j i)
  then show ?case
    by (cases "j = row") (auto simp: partlyDone_nth processed_def)
qed simp_all

lemma forCols_partlyDone:
  assumes row: "row < length tm"
    and step: "\<And>i. i < length (tm ! row) \<Longrightarrow> f (partlyDone final tm row i) row i = final row i"
  shows "col \<le> length (tm ! row) \<Longrightarrow>
         forCols f (partlyDone final tm row col) row col = partlyDone final tm (Suc row) 0"
proof (induction "length (tm ! row) - col" arbitrary: col)
  case 0
  then have "col = length (tm ! row)" by simp
  with row show ?case
    by (subst forCols.simps) (simp add: partlyDone_next_row)
next
  case (Suc k)
  then have col: "col < length (tm ! row)" by simp
  have "forCols f (partlyDone final tm row col) row col =
        forCols f (partlyDone final tm row (Suc col)) row (Suc col)"
    using row col step [OF col]
    by (subst forCols.simps) (simp add: partlyDone_step)
  also have "\<dots> = partlyDone final tm (Suc row) 0"
    using Suc col by (intro Suc.hyps) simp_all
  finally show ?case .
qed

lemma forRows_partlyDone:
  assumes step: "\<And>j i. j < length tm \<Longrightarrow> i < length (tm ! j) \<Longrightarrow>
                   f (partlyDone final tm j i) j i = final j i"
  shows "row \<le> length tm \<Longrightarrow>
         forRows f (partlyDone final tm row 0) row = partlyDone final tm (length tm) 0"
proof (induction "length tm - row" arbitrary: row)
  case 0
  then show ?case by (subst forRows.simps) simp
next
  case (Suc k)
  then have row: "row < length tm" by simp
  have "forCols f (partlyDone final tm row 0) row 0 = partlyDone final tm (Suc row) 0"
    by (rule forCols_partlyDone [OF row]) (simp_all add: step row)
  then have "forRows f (partlyDone final tm row 0) row =
        forRows f (partlyDone final tm (Suc row) 0) (Suc row)"
    using row by (subst forRows.simps) simp
  also have "\<dots> = partlyDone final tm (length tm) 0"
    using Suc row by (intro Suc.hyps) simp_all
  finally show ?case .
qed

lemma forRows_final:
  assumes "\<And>j i. j < length tm \<Longrightarrow> i < length (tm ! j) \<Longrightarrow>
             f (partlyDone final tm j i) j i = final j i"
  shows "length (forRows f tm 0) = length tm"
    and "j < length tm \<Longrightarrow> length (forRows f tm 0 ! j) = length (tm ! j)"
    and "j < length tm \<Longrightarrow> i < length (tm ! j) \<Longrightarrow> forRows f tm 0 ! j ! i = final j i"
proof -
  have eq: "forRows f tm 0 = partlyDone final tm (length tm) 0"
    using forRows_partlyDone [where f = f and final = final and tm = tm and row = 0] assms
    by (simp add: partlyDone_start)
  show "length (forRows f tm 0) = length tm" by (simp add: eq)
  show "j < length tm \<Longrightarrow> length (forRows f tm 0 ! j) = length (tm ! j)" by (simp add: eq)
  show "j < length tm \<Longrightarrow> i < length (tm ! j) \<Longrightarrow> forRows f tm 0 ! j ! i = final j i"
    by (simp add: eq partlyDone_nth processed_def)
qed

lemma carveRect_cells:
  shows "length (carveRect r tm) = length tm"
    and "j < length tm \<Longrightarrow> length (carveRect r tm ! j) = length (tm ! j)"
    and "j < length tm \<Longrightarrow> i < length (tm ! j) \<Longrightarrow>
         carveRect r tm ! j ! i = (if inRect r j i then 0 else tm ! j ! i)"
proof -
  have step: "carveCell r (partlyDone (\<lambda>j i. if inRect r j i then 0 else tm ! j ! i) tm j i) j i =
              (if inRect r j i then 0 else tm ! j ! i)"
    if "j < length tm" "i < length (tm ! j)" for j i
    using that by (simp add: carveCell_def partlyDone_nth processed_def inRect_def Let_def)
  note fin = forRows_final [where tm = tm and f = "carveCell r"
      and final = "\<lambda>j i. if inRect r j i then 0 else tm ! j ! i", OF step]
  show "length (carveRect r tm) = length tm"
    unfolding carveRect_def by (rule fin(1))
  show "j < length tm \<Longrightarrow> length (carveRect r tm ! j) = length (tm ! j)"
    unfolding carveRect_def by (rule fin(2))
  show "j < length tm \<Longrightarrow> i < length (tm ! j) \<Longrightarrow>
         carveRect r tm ! j ! i = (if inRect r j i then 0 else tm ! j ! i)"
    unfolding carveRect_def by (rule fin(3))
qed

section \<open>Corridor carving and mask normalization\<close>

lemma carvedBy_refl: "carvedBy {} tm tm"
  by (simp add: carvedBy_def)

lemma carvedBy_carveRect: "carvedBy {r} tm (carveRect r tm)"
  by (simp add: carvedBy_def carveRect_cells)

lemma carvedBy_trans:
  assumes "carvedBy A tm tm1" and "carvedBy B tm1 tm2"
  shows "carvedBy (A \<union> B) tm tm2"
  unfolding carvedBy_def
proof (intro conjI allI impI, goal_cases)
  case 1
  from assms show ?case by (simp add: carvedBy_def)
next
  case (2 j)
  with assms show ?case by (simp add: carvedBy_def)
next
  case (3 j i)
  with assms have a: "tm1 ! j ! i = (if \<exists>r \<in> A. inRect r j i then 0 else tm ! j ! i)"
    and b: "tm2 ! j ! i = (if \<exists>r \<in> B. inRect r j i then 0 else tm1 ! j ! i)"
    by (simp_all add: carvedBy_def)
  show ?case unfolding b a by auto
qed

lemma corridors_node:
  "set (corridors (TreeNode d (Some l) (Some r))) =
     (case corridor d of None \<Rightarrow> {} | Some c \<Rightarrow> {c}) \<union> set (corridors l) \<union> set (corridors r)"
  by (auto simp: corridors_def split: option.splits)

lemma corridors_leaf:
  "set (corridors (TreeNode d None None)) = (case corridor d of None \<Rightarrow> {} | Some c \<Rightarrow> {c})"
  by (auto simp: corridors_def split: option.splits)

lemma carveCorridors_corridorTree:
  "corridorTree t \<Longrightarrow>
   \<exists>p'. carveCorridors t p tm = Inr (p', tm) \<and> carvedBy (set (corridors t)) p p'"
proof (induction t arbitrary: p rule: corridorTree.induct)
  case (1 d)
  then show ?case by (simp add: corridors_leaf carvedBy_refl)
next
  case (2 d l r)
  then obtain cor where cor: "corridor d = Some cor" by auto
  from 2 have "corridorTree l" "corridorTree r" by simp_all
  from "2.IH"(1) [OF this(1), of "carveRect cor p"] obtain p2
    where l: "carveCorridors l (carveRect cor p) tm = Inr (p2, tm)"
      and cl: "carvedBy (set (corridors l)) (carveRect cor p) p2" by blast
  from "2.IH"(2) [OF \<open>corridorTree r\<close>, of p2] obtain p3
    where r: "carveCorridors r p2 tm = Inr (p3, tm)"
      and cr: "carvedBy (set (corridors r)) p2 p3" by blast
  have "carveCorridors (TreeNode d (Some l) (Some r)) p tm = Inr (p3, tm)"
    using cor l r by simp
  moreover have "carvedBy (set (corridors (TreeNode d (Some l) (Some r)))) p p3"
    using carvedBy_trans [OF carvedBy_trans [OF carvedBy_carveRect cl] cr] cor
    by (simp add: corridors_node)
  ultimately show ?case by blast
qed simp_all

lemma run_carveRooms:
  "carveRooms smallTree (createTilemap 5 8 1) =
     [[1, 1, 1, 1, 1], [1, 0, 0, 0, 1], [1, 0, 0, 0, 1], [1, 0, 0, 0, 1],
      [1, 0, 0, 0, 1], [1, 0, 0, 0, 1], [1, 0, 0, 0, 1], [1, 1, 1, 1, 1]]"
  by code_simp

lemma run_carveCorridors:
  "carveCorridorsStage smallTree
     [[1, 1, 1, 1, 1], [1, 0, 0, 0, 1], [1, 0, 0, 0, 1], [1, 0, 0, 0, 1],
      [1, 0, 0, 0, 1], [1, 0, 0, 0, 1], [1, 0, 0, 0, 1], [1, 1, 1, 1, 1]]
     (createTilemap 5 8 0) =
   Inr ([[1, 1, 1, 1, 1], [1, 0, 0, 0, 1], [1, 0, 0, 0, 1], [1, 0, 0, 0, 0],
         [1, 0, 0, 0, 0], [1, 0, 0, 0, 0], [1, 0, 0, 0, 1], [1, 1, 1, 1, 1]],
        createTilemap 5 8 0)"
  by code_simp

lemma run_dungeonTree:
  "dungeonTree specUtils examplePatterns exampleTypes smallArgs 14 =
     Some (smallTree,
           [newMonster 3 3 3 (Some Troll), newMonster 1 1 3 (Some Troll),
            newMonster 1 4 3 (Some Bandit), newMonster 1 6 3 (Some Bandit)], 13)"
  by code_simp

text \<open>
  C3, as the code has it. \<open>generateTilemap\<close> passes the tile map for the parameter
  that \<open>carveCorridors\<close> names \<open>props\<close>. For a tree whose nodes with two children carry
  a corridor, the corridor-carving stage sets the cells of the tile map that lie in the
  rectangle of a corridor of the tree to 0, changes no other cell of the tile map, and
  leaves the prop map as it is. Every tree that the constructor builds has this shape
  (\<open>dungeonTree_corridorTree\<close> below).
\<close>

theorem carveCorridors_tile_grid:
  assumes "corridorTree tree"
  shows "\<exists>tilemap'. carveCorridorsStage tree tilemap props = Inr (tilemap', props) \<and>
           carvedBy (set (corridors tree)) tilemap tilemap'"
  unfolding carveCorridorsStage_def by (rule carveCorridors_corridorTree [OF assms])

theorem carveCorridors_tile_grid_witness:
  "corridorTree smallTree \<and>
   (\<exists>tilemap'. carveCorridorsStage smallTree (createTilemap 5 8 1) (createTilemap 5 8 0) =
        Inr (tilemap', createTilemap 5 8 0) \<and>
      carvedBy (set (corridors smallTree)) (createTilemap 5 8 1) tilemap')"
proof -
  have h: "corridorTree smallTree" by (simp add: smallTree_def)
  from carveCorridors_tile_grid [OF h] h show ?thesis by blast
qed

text \<open>
  The claim C3 as stated fails: in the dungeon built for \<open>smallArgs\<close> the
  corridor-carving stage of \<open>generateTilemap\<close> changes the tile map (the three cells of
  column 4 in rows 3 to 5 turn from 1 to 0) and returns the prop map as it was.
\<close>

theorem carveCorridors_counterexample:
  "carveCorridorsStage smallTree
     (carveRooms smallTree (createTilemap (mapWidth smallArgs) (mapHeight smallArgs) 1))
     (createTilemap (mapWidth smallArgs) (mapHeight smallArgs) 0) =
   Inr ([[1, 1, 1, 1, 1], [1, 0, 0, 0, 1], [1, 0, 0, 0, 1], [1, 0, 0, 0, 0],
         [1, 0, 0, 0, 0], [1, 0, 0, 0, 0], [1, 0, 0, 0, 1], [1, 1, 1, 1, 1]],
        createTilemap (mapWidth smallArgs) (mapHeight smallArgs) 0) \<and>
   carveRooms smallTree (createTilemap (mapWidth smallArgs) (mapHeight smallArgs) 1) =
     [[1, 1, 1, 1, 1], [1, 0, 0, 0, 1], [1, 0, 0, 0, 1], [1, 0, 0, 0, 1],
      [1, 0, 0, 0, 1], [1, 0, 0, 0, 1], [1, 0, 0, 0, 1], [1, 1, 1, 1, 1]]"
  by code_simp

text \<open>
  C5. \<open>normalizeTileMask\<close> guards the top row, the bottom row and the last column, but
  not column 0. On the masks of a map of 5 by 6 tiles whose room starts in row 2 and
  column 1, the cell in row 1 of column 0 is rewritten from 15 to \<open>DirectionNWS\<close>.
\<close>

theorem normalizeTileMask_column_0:
  "generateTileMask exampleTypes
     [[1, 1, 1, 1, 1], [1, 1, 1, 1, 1], [1, 0, 0, 0, 1],
      [1, 0, 0, 0, 1], [1, 1, 1, 1, 1], [1, 1, 1, 1, 1]] ! 1 ! 0 = 15 \<and>
   normalizeTileMask exampleTypes (generateTileMask exampleTypes
     [[1, 1, 1, 1, 1], [1, 1, 1, 1, 1], [1, 0, 0, 0, 1],
      [1, 0, 0, 0, 1], [1, 1, 1, 1, 1], [1, 1, 1, 1, 1]]) ! 1 ! 0 = DirectionNWS exampleTypes"
  by code_simp

section \<open>Rooms and holes\<close>


lemma holeFits_holes [simp]: "holeFits (rm\<lparr>holes := h\<rparr>) = holeFits rm"
  by (rule ext) (simp add: holeFits_def)

lemma attachHoles_result:
  "attachHoles hs rm =
     rm\<lparr>holes := (case holes rm of Some h \<Rightarrow> Some h | None \<Rightarrow> List.find (holeFits rm) hs)\<rparr>"
proof (induction hs arbitrary: rm)
  case Nil
  show ?case by (cases "holes rm") simp_all
next
  case (Cons hole rest)
  show ?case
  proof (cases "holes rm = None \<and> holeFits rm hole")
    case True
    then show ?thesis by (simp add: Cons.IH)
  next
    case False
    then show ?thesis by (cases "holes rm") (auto simp: Cons.IH)
  qed
qed

lemma makeRoom_result:
  "fst (makeRoom U P args (rx, ry, rw, rh) g) =
     (newRoom rx ry rw rh)\<lparr>holes :=
        (if fst (randomWeights U [roomHoleChance args, 1 - roomHoleChance args] [True, False] g)
              = Some True
         then List.find (holeFits (newRoom rx ry rw rh)) (holesAll P) else None)\<rparr>"
  by (simp add: makeRoom_def Let_def split_beta attachHoles_result newRoom_def)


subsection \<open>Traversals of the tree\<close>

lemma leaves_subset_nodes: "set (leaves t) \<subseteq> set (nodes t)"
  by (induction t rule: leaves.induct) auto

lemma forEachLeaf_node:
  "forEachLeaf f (TreeNode d (Some l) (Some r)) g =
     (TreeNode d (Some (fst (forEachLeaf f l g)))
        (Some (fst (forEachLeaf f r (snd (forEachLeaf f l g))))),
      snd (forEachLeaf f r (snd (forEachLeaf f l g))))"
  by (simp add: split_beta forEachLeaf.simps)

lemma forEachLeaf_leaf:
  "lo = None \<or> ro = None \<Longrightarrow>
   forEachLeaf f (TreeNode d lo ro) g = (TreeNode (fst (f d g)) lo ro, snd (f d g))"
  by (cases lo; cases ro) (simp_all add: split_beta)

declare forEachLeaf.simps [simp del]

lemma tree_cases:
  obtains (node) d l r where "t = TreeNode d (Some l) (Some r)"
  | (leaf) d lo ro where "t = TreeNode d lo ro" and "lo = None \<or> ro = None"
  by (cases t; cases "left t"; cases "right t") auto

lemma nodes_leaf_case:
  "lo = None \<or> ro = None \<Longrightarrow> leaves (TreeNode d lo ro) = [d]"
  by (cases lo; cases ro) simp_all

lemma forEachLeaf_nodes:
  assumes "\<And>d g. Q d \<Longrightarrow> Q (fst (f d g))"
  shows "\<forall>d \<in> set (nodes t). Q d \<Longrightarrow> \<forall>d \<in> set (nodes (fst (forEachLeaf f t g))). Q d"
proof (induction t arbitrary: g rule: leaves.induct, goal_cases)
  case (1 d l r g)
  then show ?case by (auto simp: forEachLeaf_node)
next
  case (2 d ro g)
  with assms [of d g] show ?case by (cases ro) (simp_all add: forEachLeaf_leaf)
next
  case (3 d lo g)
  with assms [of d g] show ?case by (cases lo) (simp_all add: forEachLeaf_leaf)
qed

lemma forEachLeaf_leaves:
  "list_all2 (\<lambda>d d'. \<exists>g0. d' = fst (f d g0)) (leaves t) (leaves (fst (forEachLeaf f t g)))"
proof (induction t arbitrary: g rule: leaves.induct, goal_cases)
  case (1 d l r g)
  show ?case
    by (simp add: forEachLeaf_node) (intro list_all2_appendI 1)
next
  case (2 d ro g)
  show ?case by (simp add: forEachLeaf_leaf nodes_leaf_case) blast
next
  case (3 d lo g)
  show ?case by (simp add: forEachLeaf_leaf nodes_leaf_case) blast
qed

lemma visitStates_length [simp]: "length (visitStates f ds g) = length ds"
  by (induction ds arbitrary: g) simp_all



lemma generateCorridors_node:
  "\<exists>cor g1. generateCorridors U P T args (TreeNode d (Some l) (Some r)) g =
     (TreeNode (d\<lparr>corridor := Some cor\<rparr>)
        (Some (fst (generateCorridors U P T args l g1)))
        (Some (fst (generateCorridors U P T args r (snd (generateCorridors U P T args l g1))))),
      snd (generateCorridors U P T args r (snd (generateCorridors U P T args l g1))))"
  by (simp add: Let_def split_beta generateCorridors.simps) blast

lemma generateCorridors_leaf:
  "lo = None \<or> ro = None \<Longrightarrow>
   generateCorridors U P T args (TreeNode d lo ro) g = (TreeNode d lo ro, g)"
  by (cases lo; cases ro) (simp_all add: generateCorridors.simps)

declare generateCorridors.simps [simp del]

lemma generateCorridors_nodes:
  assumes "\<And>d c. Q d \<Longrightarrow> Q (d\<lparr>corridor := c\<rparr>)"
  shows "\<forall>d \<in> set (nodes t). Q d \<Longrightarrow>
         \<forall>d \<in> set (nodes (fst (generateCorridors U P T args t g))). Q d"
proof (induction t arbitrary: g rule: leaves.induct, goal_cases)
  case (1 d l r g)
  from generateCorridors_node [of U P T args d l r g] obtain cor g1 where
    eq: "generateCorridors U P T args (TreeNode d (Some l) (Some r)) g =
     (TreeNode (d\<lparr>corridor := Some cor\<rparr>)
        (Some (fst (generateCorridors U P T args l g1)))
        (Some (fst (generateCorridors U P T args r (snd (generateCorridors U P T args l g1))))),
      snd (generateCorridors U P T args r (snd (generateCorridors U P T args l g1))))"
    by blast
  from 1 assms show ?case unfolding eq by auto
next
  case (2 d ro g)
  then show ?case by (simp add: generateCorridors_leaf)
next
  case (3 d lo g)
  then show ?case by (simp add: generateCorridors_leaf)
qed

subsection \<open>The stand-in helpers keep the contracts\<close>

lemma nextUniform_range: "0 \<le> fst (nextUniform g) \<and> fst (nextUniform g) < 1"
  by (simp add: nextUniform_def)

lemma specUtils_randomAtLeastLo: "randomAtLeastLo specUtils"
  unfolding randomAtLeastLo_def
proof (intro allI impI)
  fix lo hi :: real and g :: nat
  assume "lo \<le> hi"
  then have "0 \<le> fst (nextUniform g) * (hi - lo)"
    using nextUniform_range [of g] by simp
  then have "0 \<le> \<lfloor>fst (nextUniform g) * (hi - lo)\<rfloor>" by simp
  then show "lo \<le> fst (random_num specUtils lo hi g)"
    by (simp add: specUtils_def random_spec_def split_beta)
qed



lemma specUtils_shuffleKeeps: "shuffleKeeps specUtils"
  by (simp add: shuffleKeeps_def specUtils_def shuffle_spec_def split_beta)

lemma specUtils_poissonInShape: "poissonInShape specUtils"
  unfolding poissonInShape_def
proof (intro allI ballI)
  fix w h :: real and g :: nat and p
  assume "p \<in> set (fst (poissonFill specUtils w h g))"
  then obtain a b where a: "a < nat \<lceil>w / 2\<rceil>" and b: "b < nat \<lceil>h / 2\<rceil>"
    and p: "p = (2 * of_nat a, 2 * of_nat b)"
    by (auto simp: specUtils_def poisson_spec_def)
  from a have "int a < \<lceil>w / 2\<rceil>" by simp
  then have "real a < w / 2" by (simp add: less_ceiling_iff)
  moreover from b have "int b < \<lceil>h / 2\<rceil>" by simp
  then have "real b < h / 2" by (simp add: less_ceiling_iff)
  ultimately show "0 \<le> fst p \<and> fst p < w \<and> 0 \<le> snd p \<and> snd p < h"
    using p by simp
qed

subsection \<open>The room of a leaf\<close>

lemma roomRect_bounds:
  assumes gutter: "0 \<le> containerGutterWidth args"
    and rand: "randomAtLeastLo U"
    and dims: "0 \<le> width c" "0 \<le> height c"
    and rect: "roomRect U args c g = ((rx, ry, rw, rh), g4)"
  shows "rx + rw \<le> x c + width c"
    and "ry + rh \<le> y c + height c"
    and "of_int k \<le> x c \<Longrightarrow> of_int k \<le> rx"
    and "of_int k \<le> y c \<Longrightarrow> of_int k \<le> ry"
proof -
  have nonneg: "0 \<le> fst (random_num U 0 (of_int \<lfloor>d / 4\<rfloor>) g0)" if "0 \<le> d" for d g0
  proof -
    from that have "(0::real) \<le> of_int \<lfloor>d / 4\<rfloor>" by simp
    with rand show ?thesis unfolding randomAtLeastLo_def by blast
  qed
  define g1 where "g1 = snd (random_num U 0 (of_int \<lfloor>width c / 4\<rfloor>) g)"
  define g2 where "g2 = snd (random_num U 0 (of_int \<lfloor>height c / 4\<rfloor>) g1)"
  define g3 where "g3 = snd (random_num U 0 (of_int \<lfloor>width c / 4\<rfloor>) g2)"
  define r1 where "r1 = fst (random_num U 0 (of_int \<lfloor>width c / 4\<rfloor>) g)"
  define r2 where "r2 = fst (random_num U 0 (of_int \<lfloor>height c / 4\<rfloor>) g1)"
  define r3 where "r3 = fst (random_num U 0 (of_int \<lfloor>width c / 4\<rfloor>) g2)"
  define r4 where "r4 = fst (random_num U 0 (of_int \<lfloor>height c / 4\<rfloor>) g3)"
  have r: "0 \<le> r1" "0 \<le> r2" "0 \<le> r3" "0 \<le> r4"
    unfolding r1_def r2_def r3_def r4_def using dims by (simp_all add: nonneg)
  from rect have rx: "rx = of_int \<lfloor>x c + containerGutterWidth args + r1\<rfloor>"
    and ry: "ry = of_int \<lfloor>y c + containerGutterWidth args + r2\<rfloor>"
    and rw: "rw = width c - (rx - x c) - containerGutterWidth args - r3"
    and rh: "rh = height c - (ry - y c) - containerGutterWidth args - r4"
    by (simp_all add: roomRect_def Let_def split_beta r1_def r2_def r3_def r4_def
        g1_def g2_def g3_def)
  show "rx + rw \<le> x c + width c" using rw gutter r(3) by simp
  show "ry + rh \<le> y c + height c" using rh gutter r(4) by simp
  show "of_int k \<le> rx" if "of_int k \<le> x c"
  proof -
    from that gutter r(1) have "of_int k \<le> x c + containerGutterWidth args + r1" by simp
    then have "k \<le> \<lfloor>x c + containerGutterWidth args + r1\<rfloor>" by (simp add: le_floor_iff)
    then show ?thesis unfolding rx by simp
  qed
  show "of_int k \<le> ry" if "of_int k \<le> y c"
  proof -
    from that gutter r(2) have "of_int k \<le> y c + containerGutterWidth args + r2" by simp
    then have "k \<le> \<lfloor>y c + containerGutterWidth args + r2\<rfloor>" by (simp add: le_floor_iff)
    then show ?thesis unfolding ry by simp
  qed
qed


lemma makeRoom_rect:
  "x (fst (makeRoom U P args (rx, ry, rw, rh) g)) = rx \<and>
   y (fst (makeRoom U P args (rx, ry, rw, rh) g)) = ry \<and>
   width (fst (makeRoom U P args (rx, ry, rw, rh) g)) = rw \<and>
   height (fst (makeRoom U P args (rx, ry, rw, rh) g)) = rh"
  by (simp add: makeRoom_result newRoom_def)

lemma placeRoom_result:
  assumes "roomRect U args c g = ((rx, ry, rw, rh), g4)"
  shows "fst (placeRoom U P args c g) =
           (if rw < roomMinSize args \<or> rh < roomMinSize args then c
            else c\<lparr>room := Some (fst (makeRoom U P args (rx, ry, rw, rh) g4))\<rparr>)"
  using assms by (simp add: placeRoom_def Let_def split_beta)

subsection \<open>The stages of the constructor\<close>

lemma dungeonTree_stages:
  assumes "dungeonTree U P T args g = Some (tree, monsters, g')"
  obtains t0 g1 g2 g3 where
    "generateTree U args (rootContainer args) (iterations args) g = Some (t0, g1)"
    "tree = fst (generateCorridors U P T args (fst (generateRooms U P args t0 g1)) g2)"
    "monsters = fst (generateMonsters U args tree g3)"
proof -
  from assms obtain res where res:
    "generateTree U args (rootContainer args) (iterations args) g = Some res"
    and rest: "(case res of (tree, g1) \<Rightarrow>
       (let (tree1, g2) = generateRooms U P args tree g1;
            (tree2, g3) = generateCorridors U P T args tree1 g2;
            (monsters, g4) = generateMonsters U args tree2 g3
        in Some (tree2, monsters, g4))) = Some (tree, monsters, g')"
    by (auto simp: dungeonTree_def bind_eq_Some_conv)
  obtain t0 g1 where r: "res = (t0, g1)" by (cases res)
  from rest r have
    "tree = fst (generateCorridors U P T args (fst (generateRooms U P args t0 g1))
                   (snd (generateRooms U P args t0 g1)))"
    "monsters = fst (generateMonsters U args tree
                   (snd (generateCorridors U P T args (fst (generateRooms U P args t0 g1))
                   (snd (generateRooms U P args t0 g1)))))"
    by (auto simp: Let_def split_beta)
  with res r that show ?thesis by blast
qed

lemma generateTree_plain:
  assumes "generateTree U args c n g = Some (t, g')"
    and "room c = None"
  shows "\<forall>d \<in> set (nodes t). room d = None"
proof -
  have "\<forall>d \<in> set (nodes (fst (t, g'))). room d = None"
  proof (rule generateTree_nodes [OF assms(1), where Inv = "\<lambda>d. room d = None"])
    show "room c = None" by fact
  next
    fix c l r g g'
    assume "splitContainer U args c g = Some ((l, r), g')"
    from splitContainer_plain [OF this] show "room l = None \<and> room r = None" by simp
  qed
  then show ?thesis by simp
qed













section \<open>Monsters\<close>

lemma spawnMonsters_acc:
  "spawnMonsters U args rm pts ms g =
     (ms @ fst (spawnMonsters U args rm pts [] g), snd (spawnMonsters U args rm pts [] g))"
proof (induction pts arbitrary: ms g)
  case Nil
  show ?case by simp
next
  case (Cons p pts)
  obtain t g1 where t: "randomWeights U [1 / 2, 3 / 10, 15 / 100, 5 / 100]
                      [Bandit, Skeleton, Troll, Mushroom] g = (t, g1)"
    by (metis surj_pair)
  let ?m = "newMonster (x rm + roomGutterWidth args + fst p) (y rm + roomGutterWidth args + snd p) 3 t"
  have "spawnMonsters U args rm (p # pts) ms g = spawnMonsters U args rm pts (ms @ [?m]) g1"
    using t by (simp add: Let_def)
  also have "\<dots> = ((ms @ [?m]) @ fst (spawnMonsters U args rm pts [] g1),
                    snd (spawnMonsters U args rm pts [] g1))"
    by (rule Cons.IH)
  finally have a: "spawnMonsters U args rm (p # pts) ms g =
      (ms @ ?m # fst (spawnMonsters U args rm pts [] g1), snd (spawnMonsters U args rm pts [] g1))"
    by simp
  have "spawnMonsters U args rm (p # pts) [] g = spawnMonsters U args rm pts [?m] g1"
    using t by (simp add: Let_def)
  also have "\<dots> = ([?m] @ fst (spawnMonsters U args rm pts [] g1),
                    snd (spawnMonsters U args rm pts [] g1))"
    by (rule Cons.IH)
  finally have b: "spawnMonsters U args rm (p # pts) [] g =
      (?m # fst (spawnMonsters U args rm pts [] g1), snd (spawnMonsters U args rm pts [] g1))"
    by simp
  show ?case unfolding a b by simp
qed

lemma spawnMonsters_points:
  "list_all2 (\<lambda>p m. x m = x rm + roomGutterWidth args + fst p \<and>
                     y m = y rm + roomGutterWidth args + snd p)
     pts (fst (spawnMonsters U args rm pts [] g))"
proof (induction pts arbitrary: g)
  case Nil
  show ?case by simp
next
  case (Cons p pts)
  obtain t g1 where t: "randomWeights U [1 / 2, 3 / 10, 15 / 100, 5 / 100]
                      [Bandit, Skeleton, Troll, Mushroom] g = (t, g1)"
    by (metis surj_pair)
  let ?m = "newMonster (x rm + roomGutterWidth args + fst p) (y rm + roomGutterWidth args + snd p) 3 t"
  have "spawnMonsters U args rm (p # pts) [] g = spawnMonsters U args rm pts [?m] g1"
    using t by (simp add: Let_def)
  also have "\<dots> = ([?m] @ fst (spawnMonsters U args rm pts [] g1),
                    snd (spawnMonsters U args rm pts [] g1))"
    by (rule spawnMonsters_acc)
  finally have "fst (spawnMonsters U args rm (p # pts) [] g) =
      ?m # fst (spawnMonsters U args rm pts [] g1)"
    by simp
  then show ?case using Cons.IH [of g1] by (simp add: newMonster_def)
qed

lemma js_slice0_take: "0 \<le> n \<Longrightarrow> js_slice0 xs n = take (nat n) xs"
  by (simp add: js_slice0_def)

lemma monsterPoints_props:
  assumes "0 \<le> roomMaxMonsters args" and "shuffleKeeps U"
  shows "int (length (fst (monsterPoints U args rm g))) \<le> roomMaxMonsters args"
    and "set (fst (monsterPoints U args rm g)) \<subseteq>
           set (fst (poissonFill U (width rm - roomGutterWidth args * 2)
                       (height rm - roomGutterWidth args * 2) g))"
proof -
  let ?pts = "fst (poissonFill U (width rm - roomGutterWidth args * 2)
                       (height rm - roomGutterWidth args * 2) g)"
  let ?g1 = "snd (poissonFill U (width rm - roomGutterWidth args * 2)
                       (height rm - roomGutterWidth args * 2) g)"
  have eq: "fst (monsterPoints U args rm g) =
              take (nat (roomMaxMonsters args)) (fst (shuffleArray U ?pts ?g1))"
    using assms(1) by (simp add: monsterPoints_def Let_def split_beta js_slice0_take)
  show "int (length (fst (monsterPoints U args rm g))) \<le> roomMaxMonsters args"
    unfolding eq using assms(1) by simp
  have "set (take (nat (roomMaxMonsters args)) (fst (shuffleArray U ?pts ?g1))) \<subseteq>
          set (fst (shuffleArray U ?pts ?g1))"
    by (rule set_take_subset)
  also have "\<dots> \<subseteq> set ?pts"
    using assms(2) by (simp add: shuffleKeeps_def)
  finally show "set (fst (monsterPoints U args rm g)) \<subseteq> set ?pts"
    unfolding eq .
qed

lemma monstersOfLeaf_acc:
  "monstersOfLeaf U args c ms g =
     (ms @ fst (monstersOfLeaf U args c [] g), snd (monstersOfLeaf U args c [] g))"
proof (cases "room c")
  case None
  then show ?thesis by (simp add: monstersOfLeaf_def)
next
  case (Some rm)
  then show ?thesis
    using spawnMonsters_acc [of U args rm "fst (monsterPoints U args rm g)" ms
        "snd (monsterPoints U args rm g)"]
    by (simp add: monstersOfLeaf_def split_beta)
qed

lemma monstersLoop_groups:
  "fst (monstersLoop U args cs ms g) = ms @ concat (map snd (monsterGroups U args cs g))"
proof (induction cs arbitrary: ms g)
  case Nil
  show ?case by simp
next
  case (Cons c cs)
  show ?case
    using monstersOfLeaf_acc [of U args c ms g]
    by (simp add: split_beta Cons.IH)
qed

lemma monstersOfLeaf_props:
  assumes "0 \<le> roomMaxMonsters args" and "shuffleKeeps U" and "poissonInShape U"
  shows "case room c of
           None \<Rightarrow> fst (monstersOfLeaf U args c [] g) = []
         | Some rm \<Rightarrow>
             int (length (fst (monstersOfLeaf U args c [] g))) \<le> roomMaxMonsters args \<and>
             (\<forall>m \<in> set (fst (monstersOfLeaf U args c [] g)).
                (\<exists>p \<in> set (fst (poissonFill U (width rm - roomGutterWidth args * 2)
                                   (height rm - roomGutterWidth args * 2) g)).
                   x m = x rm + roomGutterWidth args + fst p \<and>
                   y m = y rm + roomGutterWidth args + snd p) \<and>
                inGutterInset args rm m)"
proof (cases "room c")
  case None
  then show ?thesis by (simp add: monstersOfLeaf_def)
next
  case (Some rm)
  let ?w = "width rm - roomGutterWidth args * 2"
  let ?h = "height rm - roomGutterWidth args * 2"
  let ?pts = "fst (monsterPoints U args rm g)"
  let ?ms = "fst (spawnMonsters U args rm ?pts [] (snd (monsterPoints U args rm g)))"
  have ms: "fst (monstersOfLeaf U args c [] g) = ?ms"
    using Some by (simp add: monstersOfLeaf_def split_beta)
  note pp = monsterPoints_props [OF assms(1,2), of rm g]
  have la: "list_all2 (\<lambda>p m. x m = x rm + roomGutterWidth args + fst p \<and>
                     y m = y rm + roomGutterWidth args + snd p) ?pts ?ms"
    by (rule spawnMonsters_points)
  then have len: "length ?ms = length ?pts" by (simp add: list_all2_lengthD)
  have "\<exists>p \<in> set (fst (poissonFill U ?w ?h g)).
           x m = x rm + roomGutterWidth args + fst p \<and>
           y m = y rm + roomGutterWidth args + snd p" if "m \<in> set ?ms" for m
  proof -
    from that obtain i where i: "i < length ?ms" "m = ?ms ! i"
      by (auto simp: in_set_conv_nth)
    from list_all2_nthD2 [OF la i(1)] i(2)
    have "x m = x rm + roomGutterWidth args + fst (?pts ! i) \<and>
          y m = y rm + roomGutterWidth args + snd (?pts ! i)" by simp
    moreover from i(1) len have "?pts ! i \<in> set ?pts" by simp
    ultimately show ?thesis using pp(2) by blast
  qed
  moreover have "inGutterInset args rm m"
    if "p \<in> set (fst (poissonFill U ?w ?h g))"
      "x m = x rm + roomGutterWidth args + fst p \<and> y m = y rm + roomGutterWidth args + snd p"
    for m p
  proof -
    from assms(3) that(1) have "0 \<le> fst p \<and> fst p < ?w \<and> 0 \<le> snd p \<and> snd p < ?h"
      unfolding poissonInShape_def by blast
    with that(2) show ?thesis by (simp add: inGutterInset_def)
  qed
  ultimately show ?thesis
    using Some pp(1) len unfolding ms by (simp only: option.case) blast
qed

lemma monsterGroups_props:
  assumes "0 \<le> roomMaxMonsters args" and "shuffleKeeps U" and "poissonInShape U"
  shows "list_all2
     (\<lambda>c (g0, ms). case room c of
          None \<Rightarrow> ms = []
        | Some rm \<Rightarrow>
            int (length ms) \<le> roomMaxMonsters args \<and>
            (\<forall>m \<in> set ms.
               (\<exists>p \<in> set (fst (poissonFill U (width rm - roomGutterWidth args * 2)
                                  (height rm - roomGutterWidth args * 2) g0)).
                  x m = x rm + roomGutterWidth args + fst p \<and>
                  y m = y rm + roomGutterWidth args + snd p) \<and>
               inGutterInset args rm m) \<and>
            (fst (poissonFill U (width rm - roomGutterWidth args * 2)
                    (height rm - roomGutterWidth args * 2) g0) = [] \<longrightarrow> ms = []))
     cs (monsterGroups U args cs g)"
proof (induction cs arbitrary: g)
  case Nil
  show ?case by simp
next
  case (Cons c cs)
  note p = monstersOfLeaf_props [OF assms, of c g]
  have here: "case room c of
          None \<Rightarrow> fst (monstersOfLeaf U args c [] g) = []
        | Some rm \<Rightarrow>
            int (length (fst (monstersOfLeaf U args c [] g))) \<le> roomMaxMonsters args \<and>
            (\<forall>m \<in> set (fst (monstersOfLeaf U args c [] g)).
               (\<exists>p \<in> set (fst (poissonFill U (width rm - roomGutterWidth args * 2)
                                  (height rm - roomGutterWidth args * 2) g)).
                  x m = x rm + roomGutterWidth args + fst p \<and>
                  y m = y rm + roomGutterWidth args + snd p) \<and>
               inGutterInset args rm m) \<and>
            (fst (poissonFill U (width rm - roomGutterWidth args * 2)
                    (height rm - roomGutterWidth args * 2) g) = [] \<longrightarrow>
               fst (monstersOfLeaf U args c [] g) = [])"
  proof (cases "room c")
    case None
    with p show ?thesis by simp
  next
    case (Some rm)
    with p have q: "int (length (fst (monstersOfLeaf U args c [] g))) \<le> roomMaxMonsters args"
      "\<forall>m \<in> set (fst (monstersOfLeaf U args c [] g)).
               (\<exists>p \<in> set (fst (poissonFill U (width rm - roomGutterWidth args * 2)
                                  (height rm - roomGutterWidth args * 2) g)).
                  x m = x rm + roomGutterWidth args + fst p \<and>
                  y m = y rm + roomGutterWidth args + snd p) \<and>
               inGutterInset args rm m"
      by simp_all
    have "fst (monstersOfLeaf U args c [] g) = []"
      if "fst (poissonFill U (width rm - roomGutterWidth args * 2)
                    (height rm - roomGutterWidth args * 2) g) = []"
    proof (cases "fst (monstersOfLeaf U args c [] g)")
      case Nil
      then show ?thesis .
    next
      case (Cons m ms)
      then have "m \<in> set (fst (monstersOfLeaf U args c [] g))" by simp
      with q(2) that show ?thesis by fastforce
    qed
    with q Some show ?thesis by simp
  qed
  show ?case
    using here Cons.IH [of "snd (monstersOfLeaf U args c [] g)"]
    by (simp add: split_beta cong: option.case_cong)
qed

text \<open>
  C8, as the code has it. The list that \<open>generateMonsters\<close> returns is the
  concatenation, in leaf order, of one group per leaf. The group of a leaf without a
  room is empty. For a monster limit \<open>roomMaxMonsters\<close> that is not negative, the group
  of a leaf with a room has at most \<open>roomMaxMonsters\<close> monsters; each of them stands at
  the room origin plus \<open>roomGutterWidth\<close> plus a point that the sampler returned for
  this room, hence inside the room's gutter-inset interior; and the group is empty when
  the sampler returned no point. The shuffle is to return elements of its argument, and
  the sampler points of the shape it is given. For a negative limit the bound fails
  (the counterexample below).
\<close>

theorem generateMonsters_groups:
  assumes "0 \<le> roomMaxMonsters args" and "shuffleKeeps U" and "poissonInShape U"
  shows "fst (generateMonsters U args tree g) =
           concat (map snd (monsterGroups U args (leaves tree) g)) \<and>
         list_all2
           (\<lambda>c (g0, ms). case room c of
                None \<Rightarrow> ms = []
              | Some rm \<Rightarrow>
                  int (length ms) \<le> roomMaxMonsters args \<and>
                  (\<forall>m \<in> set ms.
                     (\<exists>p \<in> set (fst (poissonFill U (width rm - roomGutterWidth args * 2)
                                        (height rm - roomGutterWidth args * 2) g0)).
                        x m = x rm + roomGutterWidth args + fst p \<and>
                        y m = y rm + roomGutterWidth args + snd p) \<and>
                     inGutterInset args rm m) \<and>
                  (fst (poissonFill U (width rm - roomGutterWidth args * 2)
                          (height rm - roomGutterWidth args * 2) g0) = [] \<longrightarrow> ms = []))
           (leaves tree) (monsterGroups U args (leaves tree) g)"
proof
  show "fst (generateMonsters U args tree g) =
           concat (map snd (monsterGroups U args (leaves tree) g))"
    by (simp add: generateMonsters_def monstersLoop_groups)
  show "list_all2
           (\<lambda>c (g0, ms). case room c of
                None \<Rightarrow> ms = []
              | Some rm \<Rightarrow>
                  int (length ms) \<le> roomMaxMonsters args \<and>
                  (\<forall>m \<in> set ms.
                     (\<exists>p \<in> set (fst (poissonFill U (width rm - roomGutterWidth args * 2)
                                        (height rm - roomGutterWidth args * 2) g0)).
                        x m = x rm + roomGutterWidth args + fst p \<and>
                        y m = y rm + roomGutterWidth args + snd p) \<and>
                     inGutterInset args rm m) \<and>
                  (fst (poissonFill U (width rm - roomGutterWidth args * 2)
                          (height rm - roomGutterWidth args * 2) g0) = [] \<longrightarrow> ms = []))
           (leaves tree) (monsterGroups U args (leaves tree) g)"
    by (rule monsterGroups_props [OF assms])
qed

lemma run_monsterGroups:
  "monsterGroups specUtils smallArgs (leaves smallTree) 5 =
     [(5, [newMonster 3 3 3 (Some Troll), newMonster 1 1 3 (Some Troll)]),
      (9, [newMonster 1 4 3 (Some Bandit), newMonster 1 6 3 (Some Bandit)])]"
  by code_simp

theorem generateMonsters_groups_witness:
  "0 \<le> roomMaxMonsters smallArgs \<and> shuffleKeeps specUtils \<and> poissonInShape specUtils \<and>
   fst (generateMonsters specUtils smallArgs smallTree 5) =
     [newMonster 3 3 3 (Some Troll), newMonster 1 1 3 (Some Troll),
      newMonster 1 4 3 (Some Bandit), newMonster 1 6 3 (Some Bandit)] \<and>
   monsterGroups specUtils smallArgs (leaves smallTree) 5 =
     [(5, [newMonster 3 3 3 (Some Troll), newMonster 1 1 3 (Some Troll)]),
      (9, [newMonster 1 4 3 (Some Bandit), newMonster 1 6 3 (Some Bandit)])]"
proof -
  have h1: "0 \<le> roomMaxMonsters smallArgs" by (simp add: smallArgs_def)
  from generateMonsters_groups [OF h1 specUtils_shuffleKeeps specUtils_poissonInShape,
      of smallTree 5]
  have "fst (generateMonsters specUtils smallArgs smallTree 5) =
           concat (map snd (monsterGroups specUtils smallArgs (leaves smallTree) 5))"
    by (rule conjunct1)
  then show ?thesis
    using h1 specUtils_shuffleKeeps specUtils_poissonInShape
    by (simp add: run_monsterGroups)
qed

lemma run_monsters_negative_limit:
  "dungeonTree specUtils examplePatterns exampleTypes (smallArgs\<lparr>roomMaxMonsters := -1\<rparr>) 14 =
     Some (smallTree,
           [newMonster 3 3 3 (Some Troll), newMonster 1 1 3 (Some Troll),
            newMonster 1 3 3 (Some Skeleton), newMonster 1 4 3 (Some Bandit),
            newMonster 1 6 3 (Some Troll), newMonster 3 4 3 (Some Bandit)], 7) \<and>
   monsterGroups specUtils (smallArgs\<lparr>roomMaxMonsters := -1\<rparr>) (leaves smallTree) 5 =
     [(5, [newMonster 3 3 3 (Some Troll), newMonster 1 1 3 (Some Troll),
           newMonster 1 3 3 (Some Skeleton)]),
      (0, [newMonster 1 4 3 (Some Bandit), newMonster 1 6 3 (Some Troll),
           newMonster 3 4 3 (Some Bandit)])]"
  by code_simp

text \<open>
  The claim C8 as stated fails for a negative limit: \<^verbatim>\<open>slice(0, -1)\<close> keeps all the points
  but the last one. In the dungeon built for \<open>smallArgs\<close> with \<open>roomMaxMonsters = - 1\<close>
  the sampler returns four points for each of the two rooms, and each room is given
  three monsters.
\<close>

theorem generateMonsters_negative_limit_counterexample:
  "dungeonTree specUtils examplePatterns exampleTypes (smallArgs\<lparr>roomMaxMonsters := -1\<rparr>) 14 =
     Some (smallTree,
           [newMonster 3 3 3 (Some Troll), newMonster 1 1 3 (Some Troll),
            newMonster 1 3 3 (Some Skeleton), newMonster 1 4 3 (Some Bandit),
            newMonster 1 6 3 (Some Troll), newMonster 3 4 3 (Some Bandit)], 7) \<and>
   monsterGroups specUtils (smallArgs\<lparr>roomMaxMonsters := -1\<rparr>) (leaves smallTree) 5 =
     [(5, [newMonster 3 3 3 (Some Troll), newMonster 1 1 3 (Some Troll),
           newMonster 1 3 3 (Some Skeleton)]),
      (0, [newMonster 1 4 3 (Some Bandit), newMonster 1 6 3 (Some Troll),
           newMonster 3 4 3 (Some Bandit)])] \<and>
   \<not> int (length [newMonster 3 3 3 (Some Troll), newMonster 1 1 3 (Some Troll),
                   newMonster 1 3 3 (Some Skeleton)])
       \<le> roomMaxMonsters (smallArgs\<lparr>roomMaxMonsters := -1\<rparr>)"
  using run_monsters_negative_limit by simp

section \<open>The root container and the border of the map\<close>

lemma inside_trans:
  "inside a b \<Longrightarrow> inside b c \<Longrightarrow> inside a c"
  by (auto simp: inside_def)

lemma acceptedSplit_inside:
  assumes acc: "acceptedSplit args c l r"
    and ratios: "0 < containerWidthRatio args" "0 < containerHeightRatio args"
    and dims: "0 \<le> width c" "0 \<le> height c"
  shows "inside l c \<and> inside r c \<and> 0 \<le> width l \<and> 0 \<le> height l \<and>
         0 \<le> width r \<and> 0 \<le> height r"
proof -
  have pos: "0 \<le> a" if "\<not> js_div_lt a b q" "0 < q" "0 \<le> b" for a b q :: real
  proof (cases "b = 0")
    case True
    with that show ?thesis by (simp add: js_div_lt_def)
  next
    case False
    with that have "0 < b" "q \<le> a / b" by (simp_all add: js_div_lt_def)
    with that(2) have "0 < a / b" by simp
    with \<open>0 < b\<close> show ?thesis by (simp add: zero_less_divide_iff)
  qed
  from acc show ?thesis
    unfolding acceptedSplit_def
  proof (elim disjE conjE)
    assume v: "verticalSplit c l r"
      and "\<not> js_div_lt (width l) (height l) (containerWidthRatio args)"
      and "\<not> js_div_lt (width r) (height r) (containerWidthRatio args)"
    with dims ratios have "0 \<le> width l" "0 \<le> width r"
      by (auto intro: pos simp: verticalSplit_def)
    with v dims show ?thesis by (auto simp: verticalSplit_def inside_def)
  next
    assume h: "horizontalSplit c l r"
      and "\<not> js_div_lt (height l) (width l) (containerHeightRatio args)"
      and "\<not> js_div_lt (height r) (width r) (containerHeightRatio args)"
    with dims ratios have "0 \<le> height l" "0 \<le> height r"
      by (auto intro: pos simp: horizontalSplit_def)
    with h dims show ?thesis by (auto simp: horizontalSplit_def inside_def)
  qed
qed

lemma generateTree_inside:
  assumes run: "generateTree U args c n g = Some (t, g')"
    and ratios: "0 < containerWidthRatio args" "0 < containerHeightRatio args"
    and dims: "0 \<le> width c" "0 \<le> height c"
  shows "\<forall>d \<in> set (nodes t). inside d c \<and> 0 \<le> width d \<and> 0 \<le> height d"
proof -
  let ?Inv = "\<lambda>d :: Container. inside d c \<and> 0 \<le> width d \<and> 0 \<le> height d"
  have "\<forall>d \<in> set (nodes (fst (t, g'))). ?Inv d"
  proof (rule generateTree_nodes [OF run, where Inv = ?Inv])
    show "?Inv c" using dims by (simp add: inside_def)
  next
    fix d l r g0 g1
    assume d: "?Inv d" and s: "splitContainer U args d g0 = Some ((l, r), g1)"
    from splitContainer_accepted [OF s] have "acceptedSplit args d l r" by simp
    from acceptedSplit_inside [OF this ratios] d
    have "inside l d" "inside r d" "0 \<le> width l \<and> 0 \<le> height l" "0 \<le> width r \<and> 0 \<le> height r"
      by simp_all
    with d show "?Inv l \<and> ?Inv r" by (blast intro: inside_trans)
  qed
  then show ?thesis by simp
qed

lemma placeRoom_rect:
  "x (fst (placeRoom U P args d g)) = x d \<and> y (fst (placeRoom U P args d g)) = y d \<and>
   width (fst (placeRoom U P args d g)) = width d \<and>
   height (fst (placeRoom U P args d g)) = height d"
proof -
  obtain rx ry rw rh g4 where rect: "roomRect U args d g = ((rx, ry, rw, rh), g4)"
    by (metis surj_pair)
  show ?thesis by (simp add: placeRoom_result [OF rect])
qed

lemma placeRoom_inside:
  fixes R :: Container
  assumes gutter: "0 \<le> containerGutterWidth args"
    and rand: "randomAtLeastLo U"
    and R: "x R \<in> \<int>" "y R \<in> \<int>"
    and d: "inside d R \<and> 0 \<le> width d \<and> 0 \<le> height d \<and>
            (\<forall>rm. room d = Some rm \<longrightarrow> inside rm R)"
  shows "inside (fst (placeRoom U P args d g)) R \<and>
         0 \<le> width (fst (placeRoom U P args d g)) \<and>
         0 \<le> height (fst (placeRoom U P args d g)) \<and>
         (\<forall>rm. room (fst (placeRoom U P args d g)) = Some rm \<longrightarrow> inside rm R)"
proof -
  obtain rx ry rw rh g4 where rect: "roomRect U args d g = ((rx, ry, rw, rh), g4)"
    by (metis surj_pair)
  from R obtain kx ky where k: "x R = of_int kx" "y R = of_int ky"
    by (auto elim!: Ints_cases)
  from d have dims: "0 \<le> width d" "0 \<le> height d" by simp_all
  note b = roomRect_bounds [OF gutter rand dims rect]
  from d k have "of_int kx \<le> x d" "of_int ky \<le> y d" by (simp_all add: inside_def)
  with b(3) [of kx] b(4) [of ky] k have lo: "x R \<le> rx" "y R \<le> ry" by simp_all
  from b(1,2) d have hi: "rx + rw \<le> x R + width R" "ry + rh \<le> y R + height R"
    by (simp_all add: inside_def)
  have rm: "inside (fst (makeRoom U P args (rx, ry, rw, rh) g4)) R"
    using lo hi makeRoom_rect [of U P args rx ry rw rh g4] by (simp add: inside_def)
  have keep: "inside (fst (placeRoom U P args d g)) R \<and>
         0 \<le> width (fst (placeRoom U P args d g)) \<and>
         0 \<le> height (fst (placeRoom U P args d g))"
    using d placeRoom_rect [of U P args d g] by (simp add: inside_def)
  have "\<forall>rm. room (fst (placeRoom U P args d g)) = Some rm \<longrightarrow> inside rm R"
    using d rm by (simp add: placeRoom_result [OF rect])
  with keep show ?thesis by simp
qed

lemma nodes_leaf_first: "leaf t \<in> set (nodes t)"
  by (cases t) simp

lemma forEachLeaf_root:
  assumes "\<And>d g. x (fst (f d g)) = x d \<and> y (fst (f d g)) = y d \<and>
                  width (fst (f d g)) = width d \<and> height (fst (f d g)) = height d"
  shows "x (leaf (fst (forEachLeaf f t g))) = x (leaf t) \<and>
         y (leaf (fst (forEachLeaf f t g))) = y (leaf t) \<and>
         width (leaf (fst (forEachLeaf f t g))) = width (leaf t) \<and>
         height (leaf (fst (forEachLeaf f t g))) = height (leaf t)"
proof (cases t rule: tree_cases)
  case (node d l r)
  then show ?thesis by (simp add: forEachLeaf_node)
next
  case (leaf d lo ro)
  then show ?thesis using assms [of d g] by (simp add: forEachLeaf_leaf)
qed

lemma generateCorridors_root:
  "x (leaf (fst (generateCorridors U P T args t g))) = x (leaf t) \<and>
   y (leaf (fst (generateCorridors U P T args t g))) = y (leaf t) \<and>
   width (leaf (fst (generateCorridors U P T args t g))) = width (leaf t) \<and>
   height (leaf (fst (generateCorridors U P T args t g))) = height (leaf t)"
proof (cases t rule: tree_cases)
  case (node d l r)
  from generateCorridors_node [of U P T args d l r g] obtain cor g1 where
    "generateCorridors U P T args (TreeNode d (Some l) (Some r)) g =
     (TreeNode (d\<lparr>corridor := Some cor\<rparr>)
        (Some (fst (generateCorridors U P T args l g1)))
        (Some (fst (generateCorridors U P T args r (snd (generateCorridors U P T args l g1))))),
      snd (generateCorridors U P T args r (snd (generateCorridors U P T args l g1))))"
    by blast
  with node show ?thesis by simp
next
  case (leaf d lo ro)
  then show ?thesis by (simp add: generateCorridors_leaf)
qed

text \<open>
  C10, as the code has it. The root of the tree that the constructor builds has the
  rectangle (\<open>mapGutterWidth\<close>, \<open>mapGutterWidth\<close>, \<open>mapWidth - 2 * mapGutterWidth\<close>,
  \<open>mapHeight - 2 * mapGutterWidth\<close>). With positive minimum ratios and a map at least
  as large as its two gutters, every container of the tree lies inside the root
  rectangle, so none reaches into the border of the map; with an integer
  \<open>mapGutterWidth\<close>, a non-negative \<open>containerGutterWidth\<close> and draws of \<open>random\<close> that
  are not below the lower bound, so does every room. Nothing of the kind holds for
  corridors.
\<close>

theorem root_container_inset:
  assumes "dungeonTree U P T args g = Some (tree, monsters, g')"
  shows "x (leaf tree) = mapGutterWidth args \<and> y (leaf tree) = mapGutterWidth args \<and>
         width (leaf tree) = of_int (mapWidth args) - mapGutterWidth args * 2 \<and>
         height (leaf tree) = of_int (mapHeight args) - mapGutterWidth args * 2 \<and>
         (0 < containerWidthRatio args \<and> 0 < containerHeightRatio args \<and>
          mapGutterWidth args * 2 \<le> of_int (mapWidth args) \<and>
          mapGutterWidth args * 2 \<le> of_int (mapHeight args) \<longrightarrow>
            (\<forall>d \<in> set (nodes tree). inside d (leaf tree)) \<and>
            (mapGutterWidth args \<in> \<int> \<and> 0 \<le> containerGutterWidth args \<and> randomAtLeastLo U \<longrightarrow>
               (\<forall>d \<in> set (nodes tree). \<forall>rm. room d = Some rm \<longrightarrow> inside rm (leaf tree))))"
proof -
  let ?R = "rootContainer args"
  from assms obtain t0 g1 g2 g3 where
    t0: "generateTree U args ?R (iterations args) g = Some (t0, g1)"
    and tree: "tree = fst (generateCorridors U P T args (fst (generateRooms U P args t0 g1)) g2)"
    by (auto elim: dungeonTree_stages)
  let ?t1 = "fst (generateRooms U P args t0 g1)"
  have r0: "leaf t0 = ?R" using generateTree_root [OF t0] by simp
  have r1: "x (leaf ?t1) = x ?R \<and> y (leaf ?t1) = y ?R \<and> width (leaf ?t1) = width ?R \<and>
            height (leaf ?t1) = height ?R"
    unfolding generateRooms_def r0 [symmetric]
    by (rule forEachLeaf_root) (rule placeRoom_rect)
  have root: "x (leaf tree) = x ?R \<and> y (leaf tree) = y ?R \<and> width (leaf tree) = width ?R \<and>
            height (leaf tree) = height ?R"
    unfolding tree using generateCorridors_root [of U P T args ?t1 g2] r1 by simp
  have same: "inside a (leaf tree) = inside a ?R" for a :: "'z Rectangle_scheme"
    using root by (simp add: inside_def)
  have rect: "x (leaf tree) = mapGutterWidth args \<and> y (leaf tree) = mapGutterWidth args \<and>
         width (leaf tree) = of_int (mapWidth args) - mapGutterWidth args * 2 \<and>
         height (leaf tree) = of_int (mapHeight args) - mapGutterWidth args * 2"
    using root by (simp add: rootContainer_def newContainer_def)
  have main: "(\<forall>d \<in> set (nodes tree). inside d (leaf tree)) \<and>
            (mapGutterWidth args \<in> \<int> \<and> 0 \<le> containerGutterWidth args \<and> randomAtLeastLo U \<longrightarrow>
               (\<forall>d \<in> set (nodes tree). \<forall>rm. room d = Some rm \<longrightarrow> inside rm (leaf tree)))"
    if h: "0 < containerWidthRatio args \<and> 0 < containerHeightRatio args \<and>
          mapGutterWidth args * 2 \<le> of_int (mapWidth args) \<and>
          mapGutterWidth args * 2 \<le> of_int (mapHeight args)"
  proof -
    from h have dims: "0 \<le> width ?R" "0 \<le> height ?R"
      by (simp_all add: rootContainer_def newContainer_def)
    from h have ratios: "0 < containerWidthRatio args" "0 < containerHeightRatio args"
      by simp_all
    note i0 = generateTree_inside [OF t0 ratios dims]
    let ?A = "\<lambda>d :: Container. inside d ?R \<and> 0 \<le> width d \<and> 0 \<le> height d"
    have a1: "\<forall>d \<in> set (nodes ?t1). ?A d"
      unfolding generateRooms_def
    proof (rule forEachLeaf_nodes [where Q = ?A])
      fix d :: Container and gd
      assume "?A d"
      then show "?A (fst (placeRoom U P args d gd))"
        using placeRoom_rect [of U P args d gd] by (simp add: inside_def)
    next
      from i0 show "\<forall>d \<in> set (nodes t0). ?A d" by simp
    qed
    have a2: "\<forall>d \<in> set (nodes tree). ?A d"
      unfolding tree
      by (rule generateCorridors_nodes [where Q = ?A, OF _ a1]) (simp add: inside_def)
    have rooms: "\<forall>d \<in> set (nodes tree). \<forall>rm. room d = Some rm \<longrightarrow> inside rm (leaf tree)"
      if h2: "mapGutterWidth args \<in> \<int> \<and> 0 \<le> containerGutterWidth args \<and> randomAtLeastLo U"
    proof -
      let ?B = "\<lambda>d :: Container. inside d ?R \<and> 0 \<le> width d \<and> 0 \<le> height d \<and>
                  (\<forall>rm. room d = Some rm \<longrightarrow> inside rm ?R)"
      have RZ: "x ?R \<in> \<int>" "y ?R \<in> \<int>"
        using h2 by (simp_all add: rootContainer_def newContainer_def)
      have "\<forall>d \<in> set (nodes t0). room d = None"
        by (rule generateTree_plain [OF t0]) (simp add: rootContainer_def newContainer_def)
      with i0 have b0: "\<forall>d \<in> set (nodes t0). ?B d" by simp
      have b1: "\<forall>d \<in> set (nodes ?t1). ?B d"
        unfolding generateRooms_def
      proof (rule forEachLeaf_nodes [where Q = ?B, OF _ b0])
        fix d :: Container and gd
        assume "?B d"
        then show "?B (fst (placeRoom U P args d gd))"
          using h2 by (intro placeRoom_inside RZ) simp_all
      qed
      have "\<forall>d \<in> set (nodes tree). ?B d"
        unfolding tree
        by (rule generateCorridors_nodes [where Q = ?B, OF _ b1]) (simp add: inside_def)
      then show ?thesis by (simp add: same)
    qed
    from a2 rooms show ?thesis by (simp add: same)
  qed
  from rect main show ?thesis by blast
qed

theorem root_container_inset_witness:
  "dungeonTree specUtils examplePatterns exampleTypes smallArgs 14 \<noteq> None \<and>
   0 < containerWidthRatio smallArgs \<and> 0 < containerHeightRatio smallArgs \<and>
   mapGutterWidth smallArgs * 2 \<le> of_int (mapWidth smallArgs) \<and>
   mapGutterWidth smallArgs * 2 \<le> of_int (mapHeight smallArgs) \<and>
   mapGutterWidth smallArgs \<in> \<int> \<and> 0 \<le> containerGutterWidth smallArgs \<and>
   randomAtLeastLo specUtils \<and>
   x (leaf smallTree) = mapGutterWidth smallArgs \<and>
   width (leaf smallTree) = of_int (mapWidth smallArgs) - mapGutterWidth smallArgs * 2 \<and>
   list_all (\<lambda>d. inside d (leaf smallTree)) (nodes smallTree) \<and>
   list_all (\<lambda>d. case room d of None \<Rightarrow> True | Some rm \<Rightarrow> inside rm (leaf smallTree))
     (nodes smallTree)"
proof -
  have h: "0 < containerWidthRatio smallArgs \<and> 0 < containerHeightRatio smallArgs \<and>
   mapGutterWidth smallArgs * 2 \<le> of_int (mapWidth smallArgs) \<and>
   mapGutterWidth smallArgs * 2 \<le> of_int (mapHeight smallArgs)"
    by (simp add: smallArgs_def)
  have h2: "mapGutterWidth smallArgs \<in> \<int> \<and> 0 \<le> containerGutterWidth smallArgs \<and>
            randomAtLeastLo specUtils"
    using specUtils_randomAtLeastLo by (simp add: smallArgs_def)
  from root_container_inset [OF run_dungeonTree] h h2
  have c: "x (leaf smallTree) = mapGutterWidth smallArgs"
    "width (leaf smallTree) = of_int (mapWidth smallArgs) - mapGutterWidth smallArgs * 2"
    "\<forall>d \<in> set (nodes smallTree). inside d (leaf smallTree)"
    "\<forall>d \<in> set (nodes smallTree). \<forall>rm. room d = Some rm \<longrightarrow> inside rm (leaf smallTree)"
    by blast+
  from c(3) have l1: "list_all (\<lambda>d. inside d (leaf smallTree)) (nodes smallTree)"
    by (simp add: list_all_iff)
  from c(4) have l2: "list_all (\<lambda>d. case room d of None \<Rightarrow> True
      | Some rm \<Rightarrow> inside rm (leaf smallTree)) (nodes smallTree)"
    by (auto simp: list_all_iff split: option.splits)
  from run_dungeonTree have "dungeonTree specUtils examplePatterns exampleTypes smallArgs 14 \<noteq> None"
    by simp
  with h h2 c(1,2) l1 l2 show ?thesis by blast
qed

text \<open>
  The claim C10 as stated fails for corridors: in the dungeon built for \<open>smallArgs\<close>
  (a map 5 tiles wide with a border of 1) the corridor of the root spans the columns
  3 and 4, and column 4 is the border.
\<close>

theorem corridor_in_border_counterexample:
  "dungeonTree specUtils examplePatterns exampleTypes smallArgs 14 =
     Some (smallTree,
           [newMonster 3 3 3 (Some Troll), newMonster 1 1 3 (Some Troll),
            newMonster 1 4 3 (Some Bandit), newMonster 1 6 3 (Some Bandit)], 13) \<and>
   corridor (leaf smallTree) = Some \<lparr>x = 3, y = 3, width = 2, height = 3, traps = None\<rparr> \<and>
   of_int (mapWidth smallArgs) - mapGutterWidth smallArgs
     < rect_right \<lparr>x = 3, y = 3, width = 2, height = 3, traps = None\<rparr> \<and>
   \<not> inside \<lparr>x = 3, y = 3, width = 2, height = 3, traps = None\<rparr> (leaf smallTree)"
  using run_dungeonTree
  by (simp add: smallTree_def smallArgs_def rect_right_def inside_def)

section \<open>Bit masks\<close>

lemma or_pos_left: "0 < a \<Longrightarrow> 0 \<le> b \<Longrightarrow> 0 < a OR (b :: int)"
  using or_greater_eq [of b a] by simp

lemma or_pos_right: "0 \<le> a \<Longrightarrow> 0 < b \<Longrightarrow> 0 < a OR (b :: int)"
  using or_pos_left [of b a] by (simp add: or.commute)

lemma getTileMask_sides:
  "getTileMask T col row tm =
     (if isColliding col row SideWest tm then West T else 0) OR
     (if isColliding col row SideEast tm then East T else 0) OR
     (if isColliding col row SideNorth tm then North T else 0) OR
     (if isColliding col row SideSouth tm then South T else 0)"
  by (simp add: getTileMask_def Let_def or.assoc del: isColliding.simps)

lemma neighbourMask_pos:
  assumes flags: "0 < West T" "0 < East T" "0 < North T" "0 < South T"
    and "solidNeighbour tm (int row) (int col - 1) \<or> solidNeighbour tm (int row) (int col + 1) \<or>
         solidNeighbour tm (int row - 1) (int col) \<or> solidNeighbour tm (int row + 1) (int col)"
  shows "0 < neighbourMask T tm row col"
proof -
  define w where "w = (if solidNeighbour tm (int row) (int col - 1) then West T else 0)"
  define e where "e = (if solidNeighbour tm (int row) (int col + 1) then East T else 0)"
  define n where "n = (if solidNeighbour tm (int row - 1) (int col) then North T else 0)"
  define s where "s = (if solidNeighbour tm (int row + 1) (int col) then South T else 0)"
  have nn: "0 \<le> w" "0 \<le> e" "0 \<le> n" "0 \<le> s"
    using flags by (simp_all add: w_def e_def n_def s_def)
  from assms(5) have "0 < w \<or> 0 < e \<or> 0 < n \<or> 0 < s"
    using flags by (auto simp: w_def e_def n_def s_def)
  then have "0 < w OR (e OR (n OR s))"
  proof (elim disjE)
    assume "0 < w"
    then show ?thesis using nn by (simp add: or_pos_left)
  next
    assume "0 < e"
    then have "0 < e OR (n OR s)" using nn by (simp add: or_pos_left)
    then show ?thesis using nn by (simp add: or_pos_right)
  next
    assume "0 < n"
    then have "0 < n OR s" using nn by (simp add: or_pos_left)
    then have "0 < e OR (n OR s)" using nn by (simp add: or_pos_right)
    then show ?thesis using nn by (simp add: or_pos_right)
  next
    assume "0 < s"
    then have "0 < n OR s" using nn by (simp add: or_pos_right)
    then have "0 < e OR (n OR s)" using nn by (simp add: or_pos_right)
    then show ?thesis using nn by (simp add: or_pos_right)
  qed
  then show ?thesis by (simp add: neighbourMask_def or.assoc w_def e_def n_def s_def)
qed

lemma solidNeighbour_inside:
  "row < length tm \<Longrightarrow> col < length (tm ! row) \<Longrightarrow>
   solidNeighbour tm (int row) (int col) = (tm ! row ! col > 0)"
  by (simp add: solidNeighbour_def)

lemma cellAt_inside:
  "row < length tm \<Longrightarrow> col < length (tm ! row) \<Longrightarrow>
   cellAt tm (int row) (int col) = Some (tm ! row ! col)"
  by (simp add: cellAt_def)

lemma forRows_cells:
  assumes "\<forall>j < length tm. \<forall>i < length (tm ! j).
             f (partlyDone final tm j i) j i = final j i"
  shows "length (forRows f tm 0) = length tm \<and>
         (\<forall>j < length tm. length (forRows f tm 0 ! j) = length (tm ! j) \<and>
            (\<forall>i < length (tm ! j). forRows f tm 0 ! j ! i = final j i))"
proof (intro conjI allI impI)
  show "length (forRows f tm 0) = length tm"
    by (rule forRows_final(1) [where final = final]) (use assms in simp)
next
  fix j assume j: "j < length tm"
  show "length (forRows f tm 0 ! j) = length (tm ! j)"
    by (rule forRows_final(2) [where final = final]) (use assms j in simp_all)
next
  fix j i assume j: "j < length tm" and i: "i < length (tm ! j)"
  show "forRows f tm 0 ! j ! i = final j i"
    by (rule forRows_final(3) [where final = final]) (use assms j i in simp_all)
qed

lemma maskedCell_solid:
  assumes flags: "0 < West T" "0 < East T" "0 < North T" "0 < South T"
    and nb: "solidNeighbour tm (int row) (int col - 1) \<or> solidNeighbour tm (int row) (int col + 1) \<or>
         solidNeighbour tm (int row - 1) (int col) \<or> solidNeighbour tm (int row + 1) (int col)"
  shows "(maskedCell T tm row col > 0) = (tm ! row ! col > 0)"
  using neighbourMask_pos [OF flags nb] by (simp add: maskedCell_def)

lemma partlyDone_solid:
  assumes flags: "0 < West T" "0 < East T" "0 < North T" "0 < South T"
    and r: "j' < length tm" "i' < length (tm ! j')"
    and nb: "solidNeighbour tm (int j') (int i' - 1) \<or> solidNeighbour tm (int j') (int i' + 1) \<or>
         solidNeighbour tm (int j' - 1) (int i') \<or> solidNeighbour tm (int j' + 1) (int i')"
  shows "gt0 (cellAt (partlyDone (maskedCell T tm) tm j i) (int j') (int i')) =
           (tm ! j' ! i' > 0)"
proof -
  have "cellAt (partlyDone (maskedCell T tm) tm j i) (int j') (int i') =
          Some (partlyDone (maskedCell T tm) tm j i ! j' ! i')"
    using r by (simp add: cellAt_inside)
  then show ?thesis
    using r maskedCell_solid [OF flags nb] by (simp add: partlyDone_nth)
qed

lemma maskCell_step:
  assumes flags: "0 < West T" "0 < East T" "0 < North T" "0 < South T"
    and rect: "\<forall>r \<in> set tm. length r = w"
    and j: "j < length tm" and i: "i < w"
  shows "maskCell T (partlyDone (maskedCell T tm) tm j i) j i = maskedCell T tm j i"
proof -
  let ?pd = "partlyDone (maskedCell T tm) tm j i"
  have len: "length (tm ! k) = w" if "k < length tm" for k
    using rect that by simp
  have here: "?pd ! j ! i = tm ! j ! i"
    using j i len [OF j] by (simp add: partlyDone_nth processed_def)
  show ?thesis
  proof (cases "tm ! j ! i > 0")
    case False
    then show ?thesis using here by (simp add: maskCell_def maskedCell_def)
  next
    case True
    then have me: "solidNeighbour tm (int j) (int i)"
      using j i len [OF j] by (simp add: solidNeighbour_inside)
    have west: "isColliding i j SideWest ?pd = solidNeighbour tm (int j) (int i - 1)"
    proof (cases "i = 0")
      case True
      then show ?thesis by (simp add: solidNeighbour_def)
    next
      case False
      then have eq: "int i - 1 = int (i - 1)" and i1: "i - 1 < length (tm ! j)"
        using i len [OF j] by simp_all
      have "solidNeighbour tm (int j) (int (i - 1) + 1)" using me False by simp
      with partlyDone_solid [OF flags j i1, of j i]
      have "gt0 (cellAt ?pd (int j) (int (i - 1))) = (tm ! j ! (i - 1) > 0)" by blast
      then have a: "gt0 (cellAt ?pd (int j) (int i - 1)) = (tm ! j ! (i - 1) > 0)"
        unfolding eq .
      have b: "solidNeighbour tm (int j) (int i - 1) = (tm ! j ! (i - 1) > 0)"
        unfolding eq by (rule solidNeighbour_inside [OF j i1])
      show ?thesis
        unfolding isColliding.simps a b using False by simp
    qed
    have east: "isColliding i j SideEast ?pd = solidNeighbour tm (int j) (int i + 1)"
    proof (cases "Suc i = w")
      case True
      then show ?thesis using j len [OF j] by (auto simp: solidNeighbour_def)
    next
      case False
      then have i1: "Suc i < length (tm ! j)" using i len [OF j] by simp
      have eq: "int i + 1 = int (Suc i)" by simp
      have "cellAt ?pd (int j) (int (Suc i)) = Some (?pd ! j ! Suc i)"
        by (rule cellAt_inside) (use j i1 in simp_all)
      moreover have "?pd ! j ! Suc i = tm ! j ! Suc i"
        using j i1 by (simp add: partlyDone_nth processed_def)
      ultimately have a: "gt0 (cellAt ?pd (int j) (int i + 1)) = (tm ! j ! Suc i > 0)"
        unfolding eq by simp
      have b: "solidNeighbour tm (int j) (int i + 1) = (tm ! j ! Suc i > 0)"
        unfolding eq by (rule solidNeighbour_inside [OF j i1])
      have "int i \<noteq> int (length (?pd ! j)) - 1"
        using False j len [OF j] by simp
      then show ?thesis
        unfolding isColliding.simps a b by simp
    qed
    have north: "isColliding i j SideNorth ?pd = solidNeighbour tm (int j - 1) (int i)"
    proof (cases "j = 0")
      case True
      then show ?thesis by (simp add: solidNeighbour_def)
    next
      case False
      then have eq: "int j - 1 = int (j - 1)" and j1: "j - 1 < length tm"
        using j by simp_all
      have i1: "i < length (tm ! (j - 1))" using i len [OF j1] by simp
      have "solidNeighbour tm (int (j - 1) + 1) (int i)" using me False by simp
      with partlyDone_solid [OF flags j1 i1, of j i]
      have "gt0 (cellAt ?pd (int (j - 1)) (int i)) = (tm ! (j - 1) ! i > 0)" by blast
      then have a: "gt0 (cellAt ?pd (int j - 1) (int i)) = (tm ! (j - 1) ! i > 0)"
        unfolding eq .
      have b: "solidNeighbour tm (int j - 1) (int i) = (tm ! (j - 1) ! i > 0)"
        unfolding eq by (rule solidNeighbour_inside [OF j1 i1])
      show ?thesis
        unfolding isColliding.simps a b using False by simp
    qed
    have south: "isColliding i j SideSouth ?pd = solidNeighbour tm (int j + 1) (int i)"
    proof (cases "Suc j = length tm")
      case True
      then show ?thesis by (auto simp: solidNeighbour_def)
    next
      case False
      then have j1: "Suc j < length tm" using j by simp
      have i1: "i < length (tm ! Suc j)" using i len [OF j1] by simp
      have eq: "int j + 1 = int (Suc j)" by simp
      have "cellAt ?pd (int (Suc j)) (int i) = Some (?pd ! Suc j ! i)"
        by (rule cellAt_inside) (use j1 i1 in simp_all)
      moreover have "?pd ! Suc j ! i = tm ! Suc j ! i"
        using j1 i1 by (simp add: partlyDone_nth processed_def)
      ultimately have a: "gt0 (cellAt ?pd (int j + 1) (int i)) = (tm ! Suc j ! i > 0)"
        unfolding eq by simp
      have b: "solidNeighbour tm (int j + 1) (int i) = (tm ! Suc j ! i > 0)"
        unfolding eq by (rule solidNeighbour_inside [OF j1 i1])
      have "int j \<noteq> int (length ?pd) - 1"
        using False j by simp
      then show ?thesis
        unfolding isColliding.simps a b by simp
    qed
    have "getTileMask T i j ?pd = neighbourMask T tm j i"
      unfolding getTileMask_sides west east north south neighbourMask_def ..
    with True here show ?thesis by (simp add: maskCell_def maskedCell_def)
  qed
qed

text \<open>
  C4. On a rectangular grid, and with flags for the four sides that are above 0, the
  mask pass leaves the shape of the grid as it is, leaves every cell that held a value
  of 0 or less unchanged, and puts in every cell that held a value above 0 the union of
  the flags West, East, North, South of those sides whose neighbour, in the grid before
  the pass, was solid or lies beyond the boundary of the grid.
\<close>

theorem generateTileMask_masks:
  assumes "0 < West T" and "0 < East T" and "0 < North T" and "0 < South T"
    and "\<forall>r \<in> set tilemap. length r = w"
  shows "length (generateTileMask T tilemap) = length tilemap \<and>
         (\<forall>row < length tilemap.
            length (generateTileMask T tilemap ! row) = w \<and>
            (\<forall>col < w.
               generateTileMask T tilemap ! row ! col =
                 (if tilemap ! row ! col > 0 then neighbourMask T tilemap row col
                  else tilemap ! row ! col)))"
proof -
  have len: "length (tilemap ! k) = w" if "k < length tilemap" for k
    using assms(5) that by simp
  have "\<forall>j < length tilemap. \<forall>i < length (tilemap ! j).
          maskCell T (partlyDone (maskedCell T tilemap) tilemap j i) j i =
            maskedCell T tilemap j i"
  proof (intro allI impI)
    fix j i assume j: "j < length tilemap" and "i < length (tilemap ! j)"
    then have i: "i < w" using len [OF j] by simp
    show "maskCell T (partlyDone (maskedCell T tilemap) tilemap j i) j i =
            maskedCell T tilemap j i"
      by (rule maskCell_step [OF assms j i])
  qed
  from forRows_cells [where f = "maskCell T" and final = "maskedCell T tilemap"
      and tm = tilemap, OF this]
  show ?thesis
    unfolding generateTileMask_def using len by (simp add: maskedCell_def)
qed

lemma run_generateTileMask:
  "generateTileMask exampleTypes
     [[1, 1, 1, 1, 1], [1, 0, 0, 0, 1], [1, 0, -1, 0, 1], [1, 1, 1, 1, 1]] =
     [[15, 7, 7, 7, 15], [11, 0, 0, 0, 13], [11, 0, -1, 0, 13], [15, 14, 14, 14, 15]]"
  by code_simp


theorem generateTileMask_masks_witness:
  "0 < West exampleTypes \<and> 0 < East exampleTypes \<and> 0 < North exampleTypes \<and>
   0 < South exampleTypes \<and>
   list_all (\<lambda>r. length r = 5)
     [[1, 1, 1, 1, 1], [1, 0, 0, 0, 1], [1, 0, -1, 0, 1], [1, 1, 1, 1, 1]] \<and>
   generateTileMask exampleTypes
     [[1, 1, 1, 1, 1], [1, 0, 0, 0, 1], [1, 0, -1, 0, 1], [1, 1, 1, 1, 1]] ! 0 ! 1 =
     neighbourMask exampleTypes
       [[1, 1, 1, 1, 1], [1, 0, 0, 0, 1], [1, 0, -1, 0, 1], [1, 1, 1, 1, 1]] 0 1 \<and>
   generateTileMask exampleTypes
     [[1, 1, 1, 1, 1], [1, 0, 0, 0, 1], [1, 0, -1, 0, 1], [1, 1, 1, 1, 1]] ! 2 ! 2 = - 1 \<and>
   generateTileMask exampleTypes
     [[1, 1, 1, 1, 1], [1, 0, 0, 0, 1], [1, 0, -1, 0, 1], [1, 1, 1, 1, 1]] =
     [[15, 7, 7, 7, 15], [11, 0, 0, 0, 13], [11, 0, -1, 0, 13], [15, 14, 14, 14, 15]]"
proof -
  let ?G = "[[1, 1, 1, 1, 1], [1, 0, 0, 0, 1], [1, 0, -1, 0, 1], [1, 1, 1, 1, 1 :: int]]"
  have f: "0 < West exampleTypes" "0 < East exampleTypes" "0 < North exampleTypes"
    "0 < South exampleTypes"
    by (simp_all add: exampleTypes_def)
  have r: "\<forall>r \<in> set ?G. length r = 5" by simp
  note m = generateTileMask_masks [OF f r]
  from m have c: "\<forall>row < length ?G. \<forall>col < 5.
      generateTileMask exampleTypes ?G ! row ! col =
        (if ?G ! row ! col > 0 then neighbourMask exampleTypes ?G row col else ?G ! row ! col)"
    by blast
  have "(0::nat) < length ?G" "(1::nat) < 5" by simp_all
  with c have c1: "generateTileMask exampleTypes ?G ! 0 ! 1 =
      (if ?G ! 0 ! 1 > 0 then neighbourMask exampleTypes ?G 0 1 else ?G ! 0 ! 1)"
    by blast
  have "(2::nat) < length ?G" "(2::nat) < 5" by simp_all
  with c have c2: "generateTileMask exampleTypes ?G ! 2 ! 2 =
      (if ?G ! 2 ! 2 > 0 then neighbourMask exampleTypes ?G 2 2 else ?G ! 2 ! 2)"
    by blast
  from c1 have d1: "generateTileMask exampleTypes ?G ! 0 ! 1 = neighbourMask exampleTypes ?G 0 1"
    by simp
  from c2 have d2: "generateTileMask exampleTypes ?G ! 2 ! 2 = - 1" by simp
  show ?thesis using f d1 d2 run_generateTileMask by simp
qed

section \<open>The tree that the constructor hands to the rasterizer\<close>

lemma forEachLeaf_fullTree: "fullTree (fst (forEachLeaf f t g)) = fullTree t"
proof (induction t arbitrary: g rule: leaves.induct, goal_cases)
  case (1 d l r g)
  then show ?case by (simp add: forEachLeaf_node)
next
  case (2 d ro g)
  show ?case by (cases ro) (simp_all add: forEachLeaf_leaf)
next
  case (3 d lo g)
  show ?case by (cases lo) (simp_all add: forEachLeaf_leaf)
qed

lemma generateCorridors_corridorTree:
  "fullTree t \<Longrightarrow> \<forall>d \<in> set (leaves t). corridor d = None \<Longrightarrow>
   corridorTree (fst (generateCorridors U P T args t g))"
proof (induction t arbitrary: g rule: leaves.induct, goal_cases)
  case (1 d l r g)
  from generateCorridors_node [of U P T args d l r g] obtain cor g1 where
    eq: "generateCorridors U P T args (TreeNode d (Some l) (Some r)) g =
     (TreeNode (d\<lparr>corridor := Some cor\<rparr>)
        (Some (fst (generateCorridors U P T args l g1)))
        (Some (fst (generateCorridors U P T args r (snd (generateCorridors U P T args l g1))))),
      snd (generateCorridors U P T args r (snd (generateCorridors U P T args l g1))))"
    by blast
  from 1 show ?case unfolding eq by simp
next
  case (2 d ro g)
  then show ?case by (cases ro) (simp_all add: generateCorridors_leaf)
next
  case (3 d lo g)
  then show ?case by (cases lo) (simp_all add: generateCorridors_leaf)
qed

lemma placeRoom_corridor: "corridor (fst (placeRoom U P args d g)) = corridor d"
proof -
  obtain rx ry rw rh g4 where rect: "roomRect U args d g = ((rx, ry, rw, rh), g4)"
    by (metis surj_pair)
  show ?thesis by (simp add: placeRoom_result [OF rect])
qed

lemma dungeonTree_corridorTree:
  assumes "dungeonTree U P T args g = Some (tree, monsters, g')"
  shows "corridorTree tree"
proof -
  let ?R = "rootContainer args"
  from assms obtain t0 g1 g2 g3 where
    t0: "generateTree U args ?R (iterations args) g = Some (t0, g1)"
    and tree: "tree = fst (generateCorridors U P T args (fst (generateRooms U P args t0 g1)) g2)"
    by (auto elim: dungeonTree_stages)
  let ?t1 = "fst (generateRooms U P args t0 g1)"
  let ?Q = "\<lambda>d :: Container. corridor d = None"
  have "\<forall>d \<in> set (nodes (fst (t0, g1))). ?Q d"
  proof (rule generateTree_nodes [OF t0, where Inv = ?Q])
    show "?Q ?R" by (simp add: rootContainer_def newContainer_def)
  next
    fix c l r g g'
    assume "splitContainer U args c g = Some ((l, r), g')"
    from splitContainer_plain [OF this] show "?Q l \<and> ?Q r" by simp
  qed
  then have q0: "\<forall>d \<in> set (nodes t0). ?Q d" by simp
  have "\<forall>d \<in> set (nodes ?t1). ?Q d"
    unfolding generateRooms_def
    by (rule forEachLeaf_nodes [where Q = ?Q, OF _ q0]) (simp add: placeRoom_corridor)
  then have leaves: "\<forall>d \<in> set (leaves ?t1). ?Q d"
    using leaves_subset_nodes [of ?t1] by blast
  from generateTree_shape [OF t0] have "fullTree t0" by simp
  then have "fullTree ?t1" by (simp add: generateRooms_def forEachLeaf_fullTree)
  from generateCorridors_corridorTree [OF this leaves] show ?thesis
    unfolding tree .
qed

section \<open>Whole-number containers\<close>

text \<open>
  The leaves of a tree of \<open>generateTree\<close> are whole-number containers of non-negative
  size when the container at the root is one, the draws of \<open>random\<close> are whole numbers
  and the minimum ratios are positive; the root container of the constructor is one when
  \<open>mapGutterWidth\<close> is a whole number.
\<close>

lemma generateTree_leaves_whole:
  assumes run: "generateTree U args c n g = Some (t, g')"
    and whole: "randomWhole U" "wholeRect c"
    and ratios: "0 < containerWidthRatio args" "0 < containerHeightRatio args"
    and dims: "0 \<le> width c" "0 \<le> height c"
  shows "\<forall>d \<in> set (leaves t). wholeRect d \<and> 0 \<le> width d \<and> 0 \<le> height d"
  using generateTree_whole [OF run whole] generateTree_inside [OF run ratios dims]
    leaves_subset_nodes [of t]
  by blast

lemma rootContainer_whole:
  "mapGutterWidth args \<in> \<int> \<Longrightarrow> wholeRect (rootContainer args)"
  by (simp add: wholeRect_def rootContainer_def newContainer_def)

end
